theory Spec2Isabelle
  imports Main "HOL-Library.Sublist" "HOL-Library.AList" "HOL-Library.Multiset"
begin

section \<open>Python values used by the watcher\<close>

text \<open>
  \<^verbatim>\<open>watcher.py\<close> is modelled on ASCII text: a Python \<^verbatim>\<open>str\<close> is a \<^typ>\<open>string\<close>,
  \<^verbatim>\<open>\d\<close> is one of the ten ASCII digits and \<^verbatim>\<open>str.lower\<close> maps \<^verbatim>\<open>A\<close>..\<^verbatim>\<open>Z\<close> to \<^verbatim>\<open>a\<close>..\<^verbatim>\<open>z\<close>.
  Every exception the code can raise is a value of \<open>py_error\<close>; no exception is caught
  anywhere in \<^verbatim>\<open>watcher.py\<close>.
\<close>

datatype py_error =
  AttributeError
  | IndexError
  | ValueError
  | TypeError
  | RequestException

definition is_digit :: "char \<Rightarrow> bool" where
  "is_digit c = (48 \<le> (of_char c :: nat) \<and> (of_char c :: nat) \<le> 57)"

definition digit_val :: "char \<Rightarrow> nat" where
  "digit_val c = of_char c - 48"

text \<open>\<^verbatim>\<open>int(ds)\<close> on a run of digits.\<close>

definition digits_to_nat :: "string \<Rightarrow> nat" where
  "digits_to_nat ds = foldl (\<lambda>n c. 10 * n + digit_val c) 0 ds"

definition lower_char :: "char \<Rightarrow> char" where
  "lower_char c =
     (if 65 \<le> (of_char c :: nat) \<and> (of_char c :: nat) \<le> 90
      then char_of ((of_char c :: nat) + 32) else c)"

definition lower :: "string \<Rightarrow> string" where
  "lower s = map lower_char s"

text \<open>\<^verbatim>\<open>p in s\<close> on strings: \<open>p\<close> occurs in \<open>s\<close> as a contiguous run.\<close>

fun str_in :: "string \<Rightarrow> string \<Rightarrow> bool" where
  "str_in p [] = (p = [])"
| "str_in p (c # cs) = (prefix p (c # cs) \<or> str_in p cs)"

subsection \<open>The weight pattern\<close>

text \<open>
  \<^verbatim>\<open>WEIGHT_RE = re.compile(r"(\d+) lbs")\<close>. \<open>weight_match_here s\<close> is \<^verbatim>\<open>WEIGHT_RE.match\<close> at
  the head of \<open>s\<close>: the greedy \<^verbatim>\<open>\d+\<close> takes the whole run of digits, and giving digits back
  cannot help, because the character after a shorter run is a digit and not the space.
  \<open>weight_search\<close> is \<^verbatim>\<open>re.search\<close>: the match at the leftmost position that has one; it
  returns group 1.
\<close>

definition weight_match_here :: "string \<Rightarrow> string option" where
  "weight_match_here s =
     (let ds = takeWhile is_digit s in
      if ds \<noteq> [] \<and> prefix '' lbs'' (dropWhile is_digit s) then Some ds else None)"

fun weight_search :: "string \<Rightarrow> string option" where
  "weight_search [] = None"
| "weight_search (c # cs) =
     (case weight_match_here (c # cs) of
        Some ds \<Rightarrow> Some ds
      | None \<Rightarrow> weight_search cs)"

text \<open>
  Lines 224-225: \<^verbatim>\<open>weight_res = re.search(WEIGHT_RE, entry[5])\<close> and
  \<^verbatim>\<open>weight = int(weight_res.group(1))\<close>. When nothing matches, \<^verbatim>\<open>weight_res\<close> is
  \<^verbatim>\<open>None\<close> and \<^verbatim>\<open>.group\<close> raises \<^verbatim>\<open>AttributeError\<close>.
\<close>

definition parse_weight :: "string \<Rightarrow> py_error + int" where
  "parse_weight s =
     (case weight_search s of
        None \<Rightarrow> Inl AttributeError
      | Some ds \<Rightarrow> Inr (int (digits_to_nat ds)))"

subsection \<open>Splitting, integer parsing and indexing\<close>

text \<open>
  \<^verbatim>\<open>s.split(sep)\<close> for a non-empty separator (both call sites pass a literal): the pieces
  between the non-overlapping occurrences of \<open>sep\<close>, found from the left. \<open>cur\<close> holds the
  piece being read, reversed.
\<close>

fun split_from :: "string \<Rightarrow> string \<Rightarrow> string \<Rightarrow> string list" where
  "split_from sep cur [] = [rev cur]"
| "split_from sep cur (c # cs) =
     (if sep \<noteq> [] \<and> prefix sep (c # cs)
      then rev cur # split_from sep [] (drop (length sep) (c # cs))
      else split_from sep (c # cur) cs)"

definition py_split :: "string \<Rightarrow> string \<Rightarrow> string list" where
  "py_split sep s = split_from sep [] s"

text \<open>\<^verbatim>\<open>xs[i]\<close> for a literal index \<open>i \<ge> 0\<close>: \<^verbatim>\<open>IndexError\<close> out of range.\<close>

definition get_item :: "'a list \<Rightarrow> nat \<Rightarrow> py_error + 'a" where
  "get_item xs i = (if i < length xs then Inr (xs ! i) else Inl IndexError)"

text \<open>
  \<^verbatim>\<open>int(s)\<close> on a string: surrounding whitespace is dropped, one sign is allowed, and the
  digits may be grouped by single underscores. Anything else is a \<^verbatim>\<open>ValueError\<close>.
\<close>

definition is_space :: "char \<Rightarrow> bool" where
  "is_space c = ((of_char c :: nat) \<in> {9, 10, 11, 12, 13, 28, 29, 30, 31, 32})"

definition strip :: "string \<Rightarrow> string" where
  "strip s = rev (dropWhile is_space (rev (dropWhile is_space s)))"

fun digits_ok :: "string \<Rightarrow> bool" where
  "digits_ok [] = False"
| "digits_ok [c] = is_digit c"
| "digits_ok (c # d # r) =
     (is_digit c \<and> (if d = CHR ''_'' then digits_ok r else digits_ok (d # r)))"

definition py_int :: "string \<Rightarrow> py_error + int" where
  "py_int s =
     (let t = strip s;
          neg = (t \<noteq> [] \<and> hd t = CHR ''-'');
          body = (if t \<noteq> [] \<and> (hd t = CHR ''-'' \<or> hd t = CHR ''+'') then tl t else t);
          n = int (digits_to_nat (filter (\<lambda>c. c \<noteq> CHR ''_'') body))
      in if digits_ok body then Inr (if neg then - n else n) else Inl ValueError)"

section \<open>The store, the HTTP session and the environment of one cycle\<close>

text \<open>
  Times are microseconds since the epoch (the resolution of \<^verbatim>\<open>datetime\<close>), as integers.
\<close>

definition hour_us :: int where
  "hour_us = 3600000000"

definition day_us :: int where
  "day_us = 86400000000"

record time_of_day =
  hour :: nat
  minute :: nat
  second :: nat
  microsecond :: nat

text \<open>The documents of \<^verbatim>\<open>db.cache\<close>, \<^verbatim>\<open>db.settings\<close> and \<^verbatim>\<open>db.loads\<close>.\<close>

record cache_doc =
  cache_cookies :: "(string \<times> string) list"
  cache_dt :: int

record status_doc =
  enabled :: bool

record threshold_doc =
  threshold :: int

record logic_doc =
  destinations :: "string list"
  consignees :: "string list"
  ship_modes :: "string list"

record load_doc =
  dsm :: int
  action_id :: string
  origin_loc :: string
  origin_dt :: string
  dest_loc :: string
  dest_dt :: string
  consignee :: string
  weight :: int
  exc_ship_mode :: string
  status :: string
  dt :: int

datatype form_value = FBool bool | FStr string | FInt int | FNone

type_synonym form_data = "(string option \<times> form_value) list"

text \<open>
  One block of the notification text per accepted load (lines 271-279): origin location
  and date, destination location and date, consignee, weight, ship mode.
\<close>

type_synonym text_block = "string \<times> string \<times> string \<times> string \<times> string \<times> int \<times> string"

datatype http_request =
  Login_post
  | Offers_get
  | Accept_post form_data
  | Telegram_post "text_block list"

record response =
  ok :: bool
  set_cookies :: "(string \<times> string) list"

text \<open>
  The state that outlives a cycle: the four keyed settings and cache documents, the
  \<^verbatim>\<open>loads\<close> collection in insertion order, the cookie jar of the global session \<^verbatim>\<open>S\<close>, and
  the requests sent so far (oldest first).
\<close>

record world =
  db_cache :: "cache_doc option"
  db_status :: "status_doc option"
  db_threshold :: "threshold_doc option"
  db_logic :: "logic_doc option"
  db_loads :: "load_doc list"
  session_cookies :: "(string \<times> string) list"
  sent :: "http_request list"

text \<open>
  What one call of \<^verbatim>\<open>check_loads\<close> reads from outside: the US/Eastern wall clock, the
  value of each \<^verbatim>\<open>datetime.utcnow()\<close> call (\<open>utc_insert e k\<close> is the one of the insert made
  when \<^verbatim>\<open>new_loads\<close> has become \<open>k + 1\<close>), the response to each request (\<open>None\<close>: \<^verbatim>\<open>requests\<close>
  raised), and what lines 175-220 extract from the fetched page: the hidden form
  fields \<^verbatim>\<open>accept_data\<close> and the rows \<^verbatim>\<open>data\<close>.
\<close>

record env =
  now_time :: time_of_day
  utc_threshold :: int
  utc_session :: int
  utc_login :: int
  utc_insert :: "nat \<Rightarrow> int"
  login_resp :: "response option"
  offers_resp :: "response option"
  offers_inputs :: form_data
  offers_rows :: "string list list"
  accept_resp :: "response option"
  telegram_resp :: "response option"

section \<open>Session handling (lines 49-94)\<close>

text \<open>
  \<^verbatim>\<open>jar.update(d)\<close> and the cookies a response sets: each pair is written into the jar,
  replacing the value of a name already there.
\<close>

definition cookies_update :: "(string \<times> string) list \<Rightarrow> (string \<times> string) list \<Rightarrow> (string \<times> string) list" where
  "cookies_update new jar = fold (\<lambda>(k, v). AList.update k v) new jar"

text \<open>
  \<^verbatim>\<open>S.get\<close> and \<^verbatim>\<open>S.post\<close>: the request goes out; then either the library raises or the
  response comes back and its cookies enter the jar of \<^verbatim>\<open>S\<close>.
\<close>

definition session_request :: "http_request \<Rightarrow> response option \<Rightarrow> world \<Rightarrow> (py_error + response) \<times> world" where
  "session_request req resp w =
     (let w1 = w\<lparr>sent := sent w @ [req]\<rparr> in
      case resp of
        None \<Rightarrow> (Inl RequestException, w1)
      | Some r \<Rightarrow>
          (Inr r, w1\<lparr>session_cookies := cookies_update (set_cookies r) (session_cookies w1)\<rparr>))"

definition login :: "world \<Rightarrow> env \<Rightarrow> (py_error + unit) \<times> world" where
  "login w e =
     (case session_request Login_post (login_resp e) w of
        (Inl err, w1) \<Rightarrow> (Inl err, w1)
      | (Inr r, w1) \<Rightarrow>
          (Inr (),
           w1\<lparr>db_cache := Some \<lparr>cache_cookies = session_cookies w1, cache_dt = utc_login e\<rparr>\<rparr>))"

text \<open>
  Line 57: \<^verbatim>\<open>(datetime.utcnow() - cache_doc["dt"]).total_seconds() / 3600 > 1\<close>, that is, the
  age is more than one hour; on whole microseconds the floating-point quotient decides
  this exactly.
\<close>

definition check_session :: "world \<Rightarrow> env \<Rightarrow> (py_error + unit) \<times> world" where
  "check_session w e =
     (case db_cache w of
        None \<Rightarrow> login w e
      | Some cache_doc \<Rightarrow>
          if utc_session e - cache_dt cache_doc > hour_us then login w e
          else if session_cookies w = []
          then (Inr (), w\<lparr>session_cookies :=
                   cookies_update (cache_cookies cache_doc) (session_cookies w)\<rparr>)
          else (Inr (), w))"

section \<open>Quota (lines 131-143)\<close>

text \<open>
  \<^verbatim>\<open>today\<close> is midnight of the UTC day of \<^verbatim>\<open>utcnow()\<close>. A missing threshold document makes
  \<^verbatim>\<open>threshold["threshold"]\<close> raise \<^verbatim>\<open>TypeError\<close> (subscript of \<^verbatim>\<open>None\<close>).
\<close>

definition check_accepted_load_threshold :: "world \<Rightarrow> env \<Rightarrow> py_error + int" where
  "check_accepted_load_threshold w e =
     (let today = utc_threshold e - utc_threshold e mod day_us;
          accepted_loads = filter (\<lambda>l. status l = ''accept'' \<and> today \<le> dt l) (db_loads w);
          accepted_loads_cnt = int (length accepted_loads)
      in case db_threshold w of
           None \<Rightarrow> Inl TypeError
         | Some t \<Rightarrow> Inr (threshold t - accepted_loads_cnt))"

section \<open>Submitting an acceptance (lines 97-128)\<close>

text \<open>
  Lines 118-124, the posted form \<^verbatim>\<open>{**accept_data, "postedByUserId": None, ...}\<close>: the
  four fixed fields are written over \<^verbatim>\<open>accept_data\<close> in this order.
\<close>

definition accept_payload :: "form_data \<Rightarrow> form_data" where
  "accept_payload accept_data =
     AList.update (Some ''submit.y'') (FInt 13)
       (AList.update (Some ''submit.x'') (FInt 30)
         (AList.update (Some ''biddingLocationId'') (FInt 227871)
           (AList.update (Some ''postedByUserId'') FNone accept_data)))"

definition accept_load :: "world \<Rightarrow> env \<Rightarrow> form_data \<Rightarrow> (py_error + unit) \<times> world" where
  "accept_load w e accept_data =
     (case session_request (Accept_post (accept_payload accept_data)) (accept_resp e) w of
        (Inl err, w1) \<Rightarrow> (Inl err, w1)
      | (Inr r, w1) \<Rightarrow> (Inr (), w1))"

section \<open>Rows: weight, order, selection (lines 222-296)\<close>

text \<open>
  A row after lines 223-226: line 226 overwrites cell 5 with the parsed weight, and
  the text of cell 5 is not read again. \<open>cells\<close> keeps the row as extracted and
  \<open>weight_lbs\<close> is the integer now at index 5.
\<close>

record entry =
  cells :: "string list"
  weight_lbs :: int

definition parse_entry :: "string list \<Rightarrow> py_error + entry" where
  "parse_entry row =
     (case get_item row 5 of
        Inl err \<Rightarrow> Inl err
      | Inr c \<Rightarrow>
          (case parse_weight c of
             Inl err \<Rightarrow> Inl err
           | Inr wt \<Rightarrow> Inr \<lparr>cells = row, weight_lbs = wt\<rparr>))"

fun parse_entries :: "string list list \<Rightarrow> py_error + entry list" where
  "parse_entries [] = Inr []"
| "parse_entries (row # rows) =
     (case parse_entry row of
        Inl err \<Rightarrow> Inl err
      | Inr x \<Rightarrow>
          (case parse_entries rows of
             Inl err \<Rightarrow> Inl err
           | Inr xs \<Rightarrow> Inr (x # xs)))"

text \<open>Lines 250-263: the three \<^verbatim>\<open>any(...)\<close> tests joined by \<^verbatim>\<open>and\<close>.\<close>

definition logic_matched :: "logic_doc \<Rightarrow> string \<Rightarrow> string \<Rightarrow> string \<Rightarrow> bool" where
  "logic_matched logic dest_loc_v consignee_v exc_ship_mode_v =
     (list_ex (\<lambda>d. str_in (lower d) (lower dest_loc_v)) (destinations logic)
      \<and> list_ex (\<lambda>c. str_in (lower c) (lower consignee_v)) (consignees logic)
      \<and> list_ex (\<lambda>s. str_in (lower s) (lower exc_ship_mode_v)) (ship_modes logic))"

text \<open>Line 236: \<^verbatim>\<open>dsm = int(entry[0])\<close>.\<close>

definition entry_dsm :: "entry \<Rightarrow> py_error + int" where
  "entry_dsm x =
     (case get_item (cells x) 0 of
        Inl err \<Rightarrow> Inl err
      | Inr c \<Rightarrow> py_int c)"

text \<open>
  Lines 238-248 read the fields of the offer, in this order; the result is the document
  that lines 281-295 would insert with \<open>now\<close> as its \<^verbatim>\<open>dt\<close>.
\<close>

definition entry_fields :: "entry \<Rightarrow> int \<Rightarrow> int \<Rightarrow> py_error + load_doc" where
  "entry_fields x dsm_v now =
     (case get_item (cells x) 1 of Inl err \<Rightarrow> Inl err | Inr c1 \<Rightarrow>
      case get_item (cells x) 2 of Inl err \<Rightarrow> Inl err | Inr c2 \<Rightarrow>
      case get_item (py_split '' P:'' c1) 0 of Inl err \<Rightarrow> Inl err | Inr origin_loc_v \<Rightarrow>
      case get_item (py_split '' P:'' c1) 1 of Inl err \<Rightarrow> Inl err | Inr origin_dt_v \<Rightarrow>
      case get_item (py_split '' D:'' c2) 0 of Inl err \<Rightarrow> Inl err | Inr dest_loc_v \<Rightarrow>
      case get_item (py_split '' D:'' c2) 1 of Inl err \<Rightarrow> Inl err | Inr dest_dt_v \<Rightarrow>
      case get_item (cells x) 4 of Inl err \<Rightarrow> Inl err | Inr consignee_v \<Rightarrow>
      case get_item (cells x) 6 of Inl err \<Rightarrow> Inl err | Inr exc_ship_mode_v \<Rightarrow>
      case get_item (cells x) 8 of Inl err \<Rightarrow> Inl err | Inr action_id_v \<Rightarrow>
        Inr \<lparr>dsm = dsm_v, action_id = action_id_v, origin_loc = origin_loc_v,
             origin_dt = origin_dt_v, dest_loc = dest_loc_v, dest_dt = dest_dt_v,
             consignee = consignee_v, weight = weight_lbs x,
             exc_ship_mode = exc_ship_mode_v, status = ''accept'', dt = now\<rparr>)"

definition text_block_of :: "load_doc \<Rightarrow> text_block" where
  "text_block_of l =
     (origin_loc l, origin_dt l, dest_loc l, dest_dt l, consignee l, weight l, exc_ship_mode l)"

text \<open>The three accumulators of the loop at lines 232-234.\<close>

record selection =
  new_loads :: nat
  action_ids :: "string list"
  text_blocks :: "text_block list"

text \<open>
  One pass of the loop body, lines 236-296. \<open>remaining_loads\<close> is the value computed at
  line 164 and \<open>logic\<close> the document read at line 230 (\<open>None\<close> when it is missing, and
  then \<^verbatim>\<open>logic["destinations"]\<close> raises \<^verbatim>\<open>TypeError\<close>). The result is the exception
  raised, if one is, with the store and the accumulators as the pass leaves them.
\<close>

definition select_entry ::
  "env \<Rightarrow> int \<Rightarrow> logic_doc option \<Rightarrow> world \<times> selection \<Rightarrow> entry
     \<Rightarrow> py_error option \<times> world \<times> selection" where
  "select_entry e remaining_loads logic ws x =
     (let w = fst ws; sel = snd ws in
      case entry_dsm x of
        Inl err \<Rightarrow> (Some err, w, sel)
      | Inr dsm_v \<Rightarrow>
          if list_ex (\<lambda>l. dsm l = dsm_v) (db_loads w) then (None, w, sel)
          else
            (case entry_fields x dsm_v (utc_insert e (new_loads sel)) of
               Inl err \<Rightarrow> (Some err, w, sel)
             | Inr doc \<Rightarrow>
                 (case logic of
                    None \<Rightarrow> (Some TypeError, w, sel)
                  | Some lg \<Rightarrow>
                      if logic_matched lg (dest_loc doc) (consignee doc) (exc_ship_mode doc)
                      then
                        if int (new_loads sel) < remaining_loads
                        then (None,
                              w\<lparr>db_loads := db_loads w @ [doc]\<rparr>,
                              sel\<lparr>new_loads := new_loads sel + 1,
                                  action_ids := action_ids sel @ [action_id doc],
                                  text_blocks := text_blocks sel @ [text_block_of doc]\<rparr>)
                        else (None, w, sel)
                      else (None, w, sel))))"

text \<open>The \<^verbatim>\<open>for entry in data\<close> loop of line 235; an exception ends it.\<close>

fun select_loads ::
  "env \<Rightarrow> int \<Rightarrow> logic_doc option \<Rightarrow> world \<times> selection \<Rightarrow> entry list
     \<Rightarrow> py_error option \<times> world \<times> selection" where
  "select_loads e remaining_loads logic ws [] = (None, fst ws, snd ws)"
| "select_loads e remaining_loads logic ws (x # xs) =
     (case select_entry e remaining_loads logic ws x of
        (Some err, w', sel') \<Rightarrow> (Some err, w', sel')
      | (None, w', sel') \<Rightarrow> select_loads e remaining_loads logic (w', sel') xs)"

section \<open>The cycle (lines 146-316) and the scheduler (lines 319-323)\<close>

text \<open>The values \<^verbatim>\<open>check_loads\<close> returns: three strings, or \<^verbatim>\<open>None\<close>.\<close>

datatype cycle_result = Outside_of_hours | Disabled | Done | Py_None

text \<open>
  Lines 222-316, with the rows and hidden fields of the fetched page: parse every
  weight, sort by it (\<^verbatim>\<open>sorted\<close> is stable, as \<open>sort_key\<close> is), run the selection loop,
  then post the acceptance and the notification when something was selected.
\<close>

definition process_offers :: "world \<Rightarrow> env \<Rightarrow> int \<Rightarrow> (py_error + cycle_result) \<times> world" where
  "process_offers w e remaining_loads =
     (if offers_rows e = [] then (Inr Py_None, w)
      else
        case parse_entries (offers_rows e) of
          Inl err \<Rightarrow> (Inl err, w)
        | Inr parsed \<Rightarrow>
            (case select_loads e remaining_loads (db_logic w)
                    (w, \<lparr>new_loads = 0, action_ids = [], text_blocks = []\<rparr>)
                    (sort_key weight_lbs parsed) of
               (Some err, w1, sel) \<Rightarrow> (Inl err, w1)
             | (None, w1, sel) \<Rightarrow>
                 if new_loads sel \<noteq> 0 \<and> action_ids sel \<noteq> []
                 then
                   (case accept_load w1 e
                           (fold (\<lambda>aid. AList.update (Some aid) (FStr ''accept''))
                              (action_ids sel) (offers_inputs e)) of
                      (Inl err, w2) \<Rightarrow> (Inl err, w2)
                    | (Inr u, w2) \<Rightarrow>
                        (let w3 = w2\<lparr>sent := sent w2 @ [Telegram_post (text_blocks sel)]\<rparr> in
                         case telegram_resp e of
                           None \<Rightarrow> (Inl RequestException, w3)
                         | Some r \<Rightarrow> (Inr Py_None, w3)))
                 else (Inr Py_None, w1)))"

text \<open>Lines 164-173: the quota gate, the session and the fetch.\<close>

definition fetch_offers :: "world \<Rightarrow> env \<Rightarrow> (py_error + cycle_result) \<times> world" where
  "fetch_offers w e =
     (case check_accepted_load_threshold w e of
        Inl err \<Rightarrow> (Inl err, w)
      | Inr remaining_loads \<Rightarrow>
          if remaining_loads \<le> 0 then (Inr Done, w)
          else
            (case check_session w e of
               (Inl err, w1) \<Rightarrow> (Inl err, w1)
             | (Inr u, w1) \<Rightarrow>
                 (case session_request Offers_get (offers_resp e) w1 of
                    (Inl err, w2) \<Rightarrow> (Inl err, w2)
                  | (Inr r, w2) \<Rightarrow>
                      if \<not> ok r then (Inr Py_None, w2)
                      else process_offers w2 e remaining_loads)))"

text \<open>Lines 150-162: the hours gate and the status document, then the rest.\<close>

definition check_loads :: "world \<Rightarrow> env \<Rightarrow> (py_error + cycle_result) \<times> world" where
  "check_loads w e =
     (if hour (now_time e) < 6 \<or> hour (now_time e) > 18 then (Inr Outside_of_hours, w)
      else
        case db_status w of
          Some status_doc \<Rightarrow>
            if \<not> enabled status_doc then (Inr Disabled, w) else fetch_offers w e
        | None \<Rightarrow> fetch_offers (w\<lparr>db_status := Some \<lparr>enabled = True\<rparr>\<rparr>) e)"

text \<open>
  \<^verbatim>\<open>while True: check_loads(); time.sleep(LOOP_SECONDS)\<close>, run on the environments of the
  coming ticks. There is no \<^verbatim>\<open>try\<close>: an exception leaves the loop and ends the process
  (\<open>Some err\<close>); \<open>None\<close> means that the loop is still running after the given ticks.
\<close>

fun main_loop :: "world \<Rightarrow> env list \<Rightarrow> py_error option \<times> world" where
  "main_loop w [] = (None, w)"
| "main_loop w (e # es) =
     (case check_loads w e of
        (Inl err, w') \<Rightarrow> (Some err, w')
      | (Inr res, w') \<Rightarrow> main_loop w' es)"

section \<open>Notions used to state the properties\<close>


text \<open>
  A time of day lies outside the window 06:00-18:00, read as the specification writes
  it: before 06:00:00 or after 18:00:00.
\<close>

definition outside_0600_1800 :: "time_of_day \<Rightarrow> bool" where
  "outside_0600_1800 t =
     (hour t < 6 \<or> 18 < hour t
      \<or> (hour t = 18 \<and> (0 < minute t \<or> 0 < second t \<or> 0 < microsecond t)))"




text \<open>The UTC day of a time, and the accepted loads of a day in the store.\<close>

definition day_of :: "int \<Rightarrow> int" where
  "day_of t = t div day_us"

definition accepted_on :: "int \<Rightarrow> world \<Rightarrow> nat" where
  "accepted_on d w =
     length (filter (\<lambda>l. status l = ''accept'' \<and> day_of (dt l) = d) (db_loads w))"

text \<open>
  The cycle takes its quota on day \<open>d\<close>: the clock reading of line 136 falls on that
  day. Nothing is asked of the later readings of the cycle.
\<close>

definition env_on_day :: "int \<Rightarrow> env \<Rightarrow> bool" where
  "env_on_day d e = (day_of (utc_threshold e) = d)"

text \<open>
  The cached token is missing or more than one hour old at time \<open>now\<close>; the number of
  login requests sent so far; and the cycle gets as far as \<^verbatim>\<open>check_session()\<close>.
\<close>

definition token_stale :: "cache_doc option \<Rightarrow> int \<Rightarrow> bool" where
  "token_stale c now =
     (case c of None \<Rightarrow> True | Some cache_doc \<Rightarrow> hour_us < now - cache_dt cache_doc)"

definition logins :: "world \<Rightarrow> nat" where
  "logins w = length (filter (\<lambda>r. r = Login_post) (sent w))"

definition reaches_session :: "world \<Rightarrow> env \<Rightarrow> bool" where
  "reaches_session w e =
     (6 \<le> hour (now_time e) \<and> hour (now_time e) \<le> 18
      \<and> (case db_status w of None \<Rightarrow> True | Some status_doc \<Rightarrow> enabled status_doc)
      \<and> (case check_accepted_load_threshold w e of Inl err \<Rightarrow> False | Inr r \<Rightarrow> 0 < r))"

text \<open>The layout that lines 224 and 238-248 read from a row.\<close>

definition weight_cell_ok :: "string list \<Rightarrow> bool" where
  "weight_cell_ok row = (5 < length row \<and> weight_search (row ! 5) \<noteq> None)"

definition offer_cells_ok :: "string list \<Rightarrow> bool" where
  "offer_cells_ok row =
     (9 \<le> length row \<and> str_in '' P:'' (row ! 1) \<and> str_in '' D:'' (row ! 2))"

subsection \<open>A store and a page to evaluate on\<close>

text \<open>
  An enabled watcher with threshold 2 and no accepted load, and a cycle at noon
  Eastern whose page lists three matching offers of 500, 100 and 300 lbs.
\<close>

definition w_ready :: world where
  "w_ready =
     \<lparr>db_cache = None, db_status = Some \<lparr>enabled = True\<rparr>,
      db_threshold = Some \<lparr>threshold = 2\<rparr>,
      db_logic = Some \<lparr>destinations = [''greens''], consignees = [''coil''],
                       ship_modes = [''Coil'']\<rparr>,
      db_loads = [], session_cookies = [], sent = []\<rparr>"

definition e_noon :: env where
  "e_noon =
     \<lparr>now_time = \<lparr>hour = 12, minute = 0, second = 0, microsecond = 0\<rparr>,
      utc_threshold = 61200000000, utc_session = 61200000001, utc_login = 61200000002,
      utc_insert = (\<lambda>k. 61200000003 + int k),
      login_resp = Some \<lparr>ok = True, set_cookies = [(''JSESSIONID'', ''abc'')]\<rparr>,
      offers_resp = Some \<lparr>ok = True, set_cookies = []\<rparr>,
      offers_inputs = [(Some ''initialized'', FBool True)],
      offers_rows =
        [[''101'', ''Gary, IN P:01/02 08:00'', ''Greensboro, NC D:01/03 09:00'', ''1'',
          ''CoilPlus'', ''500 lbs'', ''COIL'', ''x'', ''action101''],
         [''102'', ''Gary, IN P:01/02 08:00'', ''Greensboro, NC D:01/03 09:00'', ''1'',
          ''CoilPlus'', ''100 lbs'', ''COIL'', ''x'', ''action102''],
         [''103'', ''Gary, IN P:01/02 08:00'', ''Greensboro, NC D:01/03 09:00'', ''1'',
          ''CoilPlus'', ''300 lbs'', ''COIL'', ''x'', ''action103'']],
      accept_resp = Some \<lparr>ok = True, set_cookies = []\<rparr>,
      telegram_resp = Some \<lparr>ok = True, set_cookies = []\<rparr>\<rparr>"

text \<open>
  A store that already holds offer 101, with room for four more loads, and the same
  page when its form carries the three action inputs with the value \<^verbatim>\<open>"accept"\<close>, as
  lines 179-190 collect them from a form that encloses the rows.
\<close>

definition w_stored :: world where
  "w_stored =
     w_ready\<lparr>db_threshold := Some \<lparr>threshold = 5\<rparr>,
             db_loads :=
               [\<lparr>dsm = 101, action_id = ''action101'', origin_loc = ''Gary, IN'',
                 origin_dt = ''01/02 08:00'', dest_loc = ''Greensboro, NC'',
                 dest_dt = ''01/03 09:00'', consignee = ''CoilPlus'', weight = 500,
                 exc_ship_mode = ''COIL'', status = ''accept'', dt = 61000000000\<rparr>]\<rparr>"

definition e_form :: env where
  "e_form =
     e_noon\<lparr>offers_inputs :=
              [(Some ''initialized'', FBool True),
               (Some ''action101'', FStr ''accept''),
               (Some ''action102'', FStr ''accept''),
               (Some ''action103'', FStr ''accept'')]\<rparr>"

section \<open>Substring test and rule matching\<close>




section \<open>The gates of a cycle\<close>

lemma process_offers_result:
  "fst (process_offers w e r) = Inr res \<Longrightarrow> res = Py_None"
  by (auto simp: process_offers_def accept_load_def session_request_def Let_def
      split: if_splits sum.splits prod.splits option.splits)

lemma fetch_offers_result:
  "fst (fetch_offers w e) = Inr res \<Longrightarrow> res = Done \<or> res = Py_None"
  by (auto simp: fetch_offers_def dest: process_offers_result
      split: if_splits sum.splits prod.splits option.splits)

text \<open>
  C4, as the code has it. A cycle returns \<^verbatim>\<open>"Outside of hours"\<close> exactly when the hour
  of the current US/Eastern time is below 6 or above 18, that is, outside
  06:00:00-18:59:59.999999; it then leaves the store, the session and the network
  untouched, whatever they hold. Otherwise it goes on to the status document: a
  disabled watcher returns \<^verbatim>\<open>"Disabled"\<close>, a missing document is created enabled, and
  the quota gate follows.
\<close>

theorem hours_gate_by_hour:
  "(fst (check_loads w e) = Inr Outside_of_hours
      \<longleftrightarrow> hour (now_time e) < 6 \<or> 18 < hour (now_time e))
   \<and> (hour (now_time e) < 6 \<or> 18 < hour (now_time e)
        \<longrightarrow> check_loads w e = (Inr Outside_of_hours, w))
   \<and> (\<not> (hour (now_time e) < 6 \<or> 18 < hour (now_time e))
        \<longrightarrow> check_loads w e =
            (case db_status w of
               Some sd \<Rightarrow> if \<not> enabled sd then (Inr Disabled, w) else fetch_offers w e
             | None \<Rightarrow> fetch_offers (w\<lparr>db_status := Some \<lparr>enabled = True\<rparr>\<rparr>) e))"
  by (auto simp: check_loads_def dest: fetch_offers_result split: option.splits)

theorem hours_gate_by_hour_witness:
  "check_loads w_ready
      (e_noon\<lparr>now_time := \<lparr>hour = 5, minute = 59, second = 59, microsecond = 999999\<rparr>\<rparr>)
     = (Inr Outside_of_hours, w_ready)
   \<and> check_loads (w_ready\<lparr>db_status := Some \<lparr>enabled = False\<rparr>\<rparr>)
      (e_noon\<lparr>now_time := \<lparr>hour = 18, minute = 59, second = 59, microsecond = 999999\<rparr>\<rparr>)
     = (Inr Disabled, w_ready\<lparr>db_status := Some \<lparr>enabled = False\<rparr>\<rparr>)"
  using
    hours_gate_by_hour
      [of w_ready
          "e_noon\<lparr>now_time := \<lparr>hour = 5, minute = 59, second = 59, microsecond = 999999\<rparr>\<rparr>"]
    hours_gate_by_hour
      [of "w_ready\<lparr>db_status := Some \<lparr>enabled = False\<rparr>\<rparr>"
          "e_noon\<lparr>now_time := \<lparr>hour = 18, minute = 59, second = 59, microsecond = 999999\<rparr>\<rparr>"]
  by simp

text \<open>
  At 18:30 US/Eastern, which is outside 06:00-18:00, the cycle is not skipped: it reads
  the status document and returns \<^verbatim>\<open>"Disabled"\<close>.
\<close>

theorem hours_gate_counterexample:
  "outside_0600_1800 \<lparr>hour = 18, minute = 30, second = 0, microsecond = 0\<rparr>
   \<and> check_loads (w_ready\<lparr>db_status := Some \<lparr>enabled = False\<rparr>\<rparr>)
        (e_noon\<lparr>now_time := \<lparr>hour = 18, minute = 30, second = 0, microsecond = 0\<rparr>\<rparr>)
      = (Inr Disabled, w_ready\<lparr>db_status := Some \<lparr>enabled = False\<rparr>\<rparr>)"
  by (simp add: outside_0600_1800_def check_loads_def)

text \<open>
  C8 on a store without the threshold document: the cycle creates the missing status
  document, enabled, and then raises \<^verbatim>\<open>TypeError\<close> at line 143 instead of going on.
\<close>

theorem missing_threshold_raises:
  "check_loads (w_ready\<lparr>db_status := None, db_threshold := None\<rparr>) e_noon
     = (Inl TypeError, w_ready\<lparr>db_status := Some \<lparr>enabled = True\<rparr>, db_threshold := None\<rparr>)"
  by code_simp

section \<open>The scheduler loop\<close>

text \<open>
  C6, as the code has it. After a cycle that returns, the loop runs the next cycle on
  the state that cycle left. An exception raised in a cycle leaves the loop with that
  exception: no later cycle runs, whatever the coming ticks would have brought.
\<close>

theorem main_loop_step:
  "(check_loads w e = (Inl err, w') \<longrightarrow> main_loop w (e # es) = (Some err, w'))
   \<and> (check_loads w e = (Inr res, w') \<longrightarrow> main_loop w (e # es) = main_loop w' es)"
  by simp

lemma fetch_fails: "fst (check_loads w_ready (e_noon\<lparr>offers_resp := None\<rparr>)) = Inl RequestException"
  by code_simp

theorem main_loop_step_witness:
  "main_loop w_ready [e_noon\<lparr>offers_resp := None\<rparr>, e_noon]
     = (Some RequestException, snd (check_loads w_ready (e_noon\<lparr>offers_resp := None\<rparr>)))
   \<and> main_loop w_ready
       [e_noon\<lparr>now_time := \<lparr>hour = 3, minute = 0, second = 0, microsecond = 0\<rparr>\<rparr>,
        e_noon\<lparr>now_time := \<lparr>hour = 4, minute = 0, second = 0, microsecond = 0\<rparr>\<rparr>]
     = (None, w_ready)"
proof -
  have a: "check_loads w_ready (e_noon\<lparr>offers_resp := None\<rparr>)
             = (Inl RequestException, snd (check_loads w_ready (e_noon\<lparr>offers_resp := None\<rparr>)))"
    using fetch_fails by (simp add: prod_eq_iff)
  have b: "check_loads w_ready
             (e_noon\<lparr>now_time := \<lparr>hour = h, minute = 0, second = 0, microsecond = 0\<rparr>\<rparr>)
             = (Inr Outside_of_hours, w_ready)" if "h < 6" for h
    using that by (simp add: check_loads_def)
  show ?thesis
    using a b [of 3] b [of 4]
      main_loop_step [of w_ready "e_noon\<lparr>offers_resp := None\<rparr>" RequestException
         "snd (check_loads w_ready (e_noon\<lparr>offers_resp := None\<rparr>))" "[e_noon]"]
      main_loop_step [of w_ready
         "e_noon\<lparr>now_time := \<lparr>hour = 3, minute = 0, second = 0, microsecond = 0\<rparr>\<rparr>" _
         w_ready
         "[e_noon\<lparr>now_time := \<lparr>hour = 4, minute = 0, second = 0, microsecond = 0\<rparr>\<rparr>]"
         Outside_of_hours]
      main_loop_step [of w_ready
         "e_noon\<lparr>now_time := \<lparr>hour = 4, minute = 0, second = 0, microsecond = 0\<rparr>\<rparr>" _
         w_ready "[]" Outside_of_hours]
    by simp
qed

text \<open>
  A network failure of the fetch in the first cycle ends the loop: the second cycle,
  which would have run without exception, sends nothing.
\<close>

theorem main_loop_counterexample:
  "fst (check_loads w_ready (e_noon\<lparr>offers_resp := None\<rparr>)) = Inl RequestException
   \<and> fst (main_loop w_ready [e_noon\<lparr>offers_resp := None\<rparr>, e_noon]) = Some RequestException
   \<and> sent (snd (main_loop w_ready [e_noon\<lparr>offers_resp := None\<rparr>, e_noon]))
       = [Login_post, Offers_get]
   \<and> fst (main_loop (snd (check_loads w_ready (e_noon\<lparr>offers_resp := None\<rparr>))) [e_noon]) = None"
  by code_simp

section \<open>Order of evaluation\<close>

lemma session_request_loads: "db_loads (snd (session_request req resp w)) = db_loads w"
  by (simp add: session_request_def Let_def split: option.splits)

lemma accept_load_loads: "db_loads (snd (accept_load w e data)) = db_loads w"
proof -
  have "\<And>req. db_loads (snd (case session_request req (accept_resp e) w of
            (Inl err, w1) \<Rightarrow> (Inl err, w1) | (Inr r, w1) \<Rightarrow> (Inr (), w1))) = db_loads w"
    using session_request_loads [of _ "accept_resp e" w]
    by (auto split: prod.splits sum.splits) (metis snd_conv)+
  then show ?thesis by (simp add: accept_load_def Let_def)
qed

lemma process_offers_loads:
  assumes "offers_rows e \<noteq> []" and "parse_entries (offers_rows e) = Inr parsed"
    and "select_loads e r (db_logic w)
           (w, \<lparr>new_loads = 0, action_ids = [], text_blocks = []\<rparr>)
           (sort_key weight_lbs parsed) = (res, w1, sel)"
  shows "db_loads (snd (process_offers w e r)) = db_loads w1"
  using assms accept_load_loads [of w1 e]
  by (auto simp: process_offers_def Let_def split: option.splits prod.splits sum.splits)
     (metis snd_conv)+

text \<open>
  C9. The selection loop runs over the parsed rows sorted by weight, ascending: the
  list it is given is sorted, holds the same rows, and the loads a cycle persists are
  those this loop selects. Rows of 500, 100 and 300 lbs are evaluated as 100, 300, 500;
  with room for two loads the cycle on that page accepts the rows of 100 and 300 lbs,
  in this order.
\<close>

theorem offers_evaluated_by_weight:
  "sorted (map weight_lbs (sort_key weight_lbs parsed))
   \<and> mset (sort_key weight_lbs parsed) = mset parsed
   \<and> (map weight_lbs parsed = [500, 100, 300]
        \<longrightarrow> map weight_lbs (sort_key weight_lbs parsed) = [100, 300, 500])
   \<and> (offers_rows e \<noteq> [] \<and> parse_entries (offers_rows e) = Inr parsed
        \<longrightarrow> db_loads (snd (process_offers w e r))
            = db_loads (fst (snd (select_loads e r (db_logic w)
                (w, \<lparr>new_loads = 0, action_ids = [], text_blocks = []\<rparr>)
                (sort_key weight_lbs parsed)))))
   \<and> map weight (db_loads (snd (check_loads w_ready e_noon))) = [100, 300]"
proof -
  have a: "sorted (map weight_lbs (sort_key weight_lbs parsed))" by simp
  have b: "mset (sort_key weight_lbs parsed) = mset parsed" by simp
  have c: "map weight_lbs (sort_key weight_lbs parsed) = [100, 300, 500]"
    if "map weight_lbs parsed = [500, 100, 300]"
  proof -
    from that obtain x y z where "parsed = [x, y, z]"
      and "weight_lbs x = 500" and "weight_lbs y = 100" and "weight_lbs z = 300"
      by (auto simp: map_eq_Cons_conv)
    then show ?thesis by simp
  qed
  have d: "db_loads (snd (process_offers w e r))
            = db_loads (fst (snd (select_loads e r (db_logic w)
                (w, \<lparr>new_loads = 0, action_ids = [], text_blocks = []\<rparr>)
                (sort_key weight_lbs parsed))))"
    if "offers_rows e \<noteq> []" and "parse_entries (offers_rows e) = Inr parsed"
    using process_offers_loads [OF that] by (metis fst_conv snd_conv prod.collapse)
  have f: "map weight (db_loads (snd (check_loads w_ready e_noon))) = [100, 300]"
    by code_simp
  from a b c d f show ?thesis by blast
qed

lemma noon_parsed:
  "parse_entries (offers_rows e_noon) = Inr (projr (parse_entries (offers_rows e_noon)))"
  "map weight_lbs (projr (parse_entries (offers_rows e_noon))) = [500, 100, 300]"
  "offers_rows e_noon \<noteq> []"
  by code_simp+

theorem offers_evaluated_by_weight_witness:
  "map weight_lbs (sort_key weight_lbs (projr (parse_entries (offers_rows e_noon))))
     = [100, 300, 500]
   \<and> db_loads (snd (process_offers w_ready e_noon 2))
       = db_loads (fst (snd (select_loads e_noon 2 (db_logic w_ready)
           (w_ready, \<lparr>new_loads = 0, action_ids = [], text_blocks = []\<rparr>)
           (sort_key weight_lbs (projr (parse_entries (offers_rows e_noon)))))))"
  using noon_parsed
    offers_evaluated_by_weight
      [of "projr (parse_entries (offers_rows e_noon))" e_noon w_ready 2]
  by simp

section \<open>Weight parsing\<close>












lemma process_offers_parse_error:
  "parse_entries (offers_rows e) = Inl err \<Longrightarrow> process_offers w e r = (Inl err, w)"
  by (auto simp: process_offers_def)






section \<open>The selection loop\<close>

lemma entry_fields_doc:
  "entry_fields x d now = Inr doc \<Longrightarrow>
     dsm doc = d \<and> status doc = ''accept'' \<and> dt doc = now \<and> weight doc = weight_lbs x"
  by (auto simp: entry_fields_def split: sum.splits)

lemma select_entry_cases:
  assumes "select_entry e r lg (w, sel) x = (res, w', sel')"
  shows "(w' = w \<and> sel' = sel)
     \<or> (\<exists>doc. res = None \<and> entry_dsm x = Inr (dsm doc)
           \<and> \<not> list_ex (\<lambda>l. dsm l = dsm doc) (db_loads w)
           \<and> status doc = ''accept'' \<and> dt doc = utc_insert e (new_loads sel)
           \<and> int (new_loads sel) < r
           \<and> w' = w\<lparr>db_loads := db_loads w @ [doc]\<rparr>
           \<and> sel' = sel\<lparr>new_loads := new_loads sel + 1,
                        action_ids := action_ids sel @ [action_id doc],
                        text_blocks := text_blocks sel @ [text_block_of doc]\<rparr>)"
proof (cases "entry_dsm x")
  case (Inl err)
  with assms show ?thesis by (simp add: select_entry_def)
next
  case (Inr d)
  show ?thesis
  proof (cases "list_ex (\<lambda>l. dsm l = d) (db_loads w)")
    case True
    with Inr assms show ?thesis by (simp add: select_entry_def)
  next
    case False
    show ?thesis
    proof (cases "entry_fields x d (utc_insert e (new_loads sel))")
      case (Inl err)
      with Inr False assms show ?thesis by (simp add: select_entry_def)
    next
      case doc: (Inr doc)
      from entry_fields_doc [OF doc]
      have f: "dsm doc = d" "status doc = ''accept''" "dt doc = utc_insert e (new_loads sel)"
        by simp_all
      from Inr False doc assms f show ?thesis
        by (auto simp: select_entry_def split: option.splits if_splits)
    qed
  qed
qed

lemma select_loads_new:
  "select_loads e r lg (w, sel) xs = (res, w', sel') \<Longrightarrow>
   \<exists>new. w' = w\<lparr>db_loads := db_loads w @ new\<rparr>
     \<and> new_loads sel' = new_loads sel + length new
     \<and> action_ids sel' = action_ids sel @ map action_id new
     \<and> text_blocks sel' = text_blocks sel @ map text_block_of new
     \<and> (\<forall>l \<in> set new. status l = ''accept'' \<and> (\<exists>k. dt l = utc_insert e k)
           \<and> (\<forall>l0 \<in> set (db_loads w). dsm l0 \<noteq> dsm l))
     \<and> distinct (map dsm new)
     \<and> (new \<noteq> [] \<longrightarrow> int (new_loads sel') \<le> r)"
proof (induction xs arbitrary: w sel)
  case Nil
  then have "w' = w\<lparr>db_loads := db_loads w @ []\<rparr>" "sel' = sel" by simp_all
  then show ?case by (intro exI [of _ "[]"]) simp
next
  case (Cons x xs)
  obtain r1 w1 s1 where step: "select_entry e r lg (w, sel) x = (r1, w1, s1)"
    by (cases "select_entry e r lg (w, sel) x") auto
  from select_entry_cases [OF step]
  consider (same) "w1 = w" "s1 = sel"
    | (ins) doc where "r1 = None" "\<not> list_ex (\<lambda>l. dsm l = dsm doc) (db_loads w)"
        "status doc = ''accept''" "dt doc = utc_insert e (new_loads sel)"
        "int (new_loads sel) < r" "w1 = w\<lparr>db_loads := db_loads w @ [doc]\<rparr>"
        "s1 = sel\<lparr>new_loads := new_loads sel + 1,
                  action_ids := action_ids sel @ [action_id doc],
                  text_blocks := text_blocks sel @ [text_block_of doc]\<rparr>"
    by blast
  then show ?case
  proof cases
    case same
    show ?thesis
    proof (cases r1)
      case None
      with step Cons.prems same have "select_loads e r lg (w, sel) xs = (res, w', sel')"
        by simp
      from Cons.IH [OF this] show ?thesis .
    next
      case (Some err)
      with step Cons.prems same have "w' = w\<lparr>db_loads := db_loads w @ []\<rparr>" "sel' = sel"
        by simp_all
      then show ?thesis by (intro exI [of _ "[]"]) simp
    qed
  next
    case ins
    with step Cons.prems have "select_loads e r lg (w1, s1) xs = (res, w', sel')"
      by simp
    from Cons.IH [OF this] obtain new where n:
      "w' = w1\<lparr>db_loads := db_loads w1 @ new\<rparr>"
      "new_loads sel' = new_loads s1 + length new"
      "action_ids sel' = action_ids s1 @ map action_id new"
      "text_blocks sel' = text_blocks s1 @ map text_block_of new"
      "\<forall>l \<in> set new. status l = ''accept'' \<and> (\<exists>k. dt l = utc_insert e k)
           \<and> (\<forall>l0 \<in> set (db_loads w1). dsm l0 \<noteq> dsm l)"
      "distinct (map dsm new)"
      "new \<noteq> [] \<longrightarrow> int (new_loads sel') \<le> r"
      by blast
    have 1: "w' = w\<lparr>db_loads := db_loads w @ (doc # new)\<rparr>"
      using n(1) ins(6) by simp
    have 2: "new_loads sel' = new_loads sel + length (doc # new)"
      using n(2) ins(7) by simp
    have 3: "action_ids sel' = action_ids sel @ map action_id (doc # new)"
      using n(3) ins(7) by simp
    have 4: "text_blocks sel' = text_blocks sel @ map text_block_of (doc # new)"
      using n(4) ins(7) by simp
    have 5: "\<forall>l \<in> set (doc # new). status l = ''accept'' \<and> (\<exists>k. dt l = utc_insert e k)
           \<and> (\<forall>l0 \<in> set (db_loads w). dsm l0 \<noteq> dsm l)"
      using n(5) ins(2,3,4,6) by (auto simp: list_ex_iff)
    have 6: "distinct (map dsm (doc # new))"
      using n(5,6) ins(6) by auto
    have 7: "int (new_loads sel') \<le> r"
    proof (cases "new = []")
      case True
      with n(2) ins(5,7) show ?thesis by simp
    next
      case False
      with n(7) show ?thesis by simp
    qed
    from 1 2 3 4 5 6 7 show ?thesis by (intro exI [of _ "doc # new"]) simp
  qed
qed

lemma session_request_frame:
  "\<exists>c. snd (session_request req resp w)
         = w\<lparr>session_cookies := c, sent := sent w @ [req]\<rparr>"
proof (cases resp)
  case None
  then have "snd (session_request req resp w)
      = w\<lparr>session_cookies := session_cookies w, sent := sent w @ [req]\<rparr>"
    by (simp add: session_request_def)
  then show ?thesis by blast
next
  case (Some r)
  then have "snd (session_request req resp w)
      = w\<lparr>session_cookies := cookies_update (set_cookies r) (session_cookies w),
          sent := sent w @ [req]\<rparr>"
    by (simp add: session_request_def)
  then show ?thesis by blast
qed

lemma accept_load_frame:
  "\<exists>c p. snd (accept_load w e data)
         = w\<lparr>session_cookies := c, sent := sent w @ [Accept_post p]\<rparr>"
proof -
  define p where "p = accept_payload data"
  obtain c where c: "snd (session_request (Accept_post p) (accept_resp e) w)
         = w\<lparr>session_cookies := c, sent := sent w @ [Accept_post p]\<rparr>"
    using session_request_frame by blast
  have "snd (accept_load w e data) = snd (session_request (Accept_post p) (accept_resp e) w)"
    by (simp add: accept_load_def p_def Let_def split: prod.splits sum.splits)
  with c show ?thesis by metis
qed

lemma process_offers_frame:
  "\<exists>new c extra. snd (process_offers w e r)
       = w\<lparr>db_loads := db_loads w @ new, session_cookies := c, sent := sent w @ extra\<rparr>
     \<and> Login_post \<notin> set extra
     \<and> (\<forall>l \<in> set new. status l = ''accept'' \<and> (\<exists>k. dt l = utc_insert e k)
           \<and> (\<forall>l0 \<in> set (db_loads w). dsm l0 \<noteq> dsm l))
     \<and> distinct (map dsm new)
     \<and> (new \<noteq> [] \<longrightarrow> int (length new) \<le> r)"
proof -
  have unchanged: ?thesis if "snd (process_offers w e r) = w"
  proof -
    from that have "snd (process_offers w e r)
       = w\<lparr>db_loads := db_loads w @ [], session_cookies := session_cookies w,
           sent := sent w @ []\<rparr>" by simp
    then show ?thesis by (intro exI [of _ "[]"] exI [of _ "session_cookies w"]) simp
  qed
  show ?thesis
  proof (cases "offers_rows e = []")
    case True
    then show ?thesis by (intro unchanged) (simp add: process_offers_def)
  next
    case rows: False
    show ?thesis
    proof (cases "parse_entries (offers_rows e)")
      case (Inl err)
      with rows show ?thesis by (intro unchanged) (simp add: process_offers_def)
    next
      case (Inr parsed)
      obtain res w1 sel where sl: "select_loads e r (db_logic w)
           (w, \<lparr>new_loads = 0, action_ids = [], text_blocks = []\<rparr>)
           (sort_key weight_lbs parsed) = (res, w1, sel)"
        by (metis prod.collapse)
      from select_loads_new [OF sl] obtain new where n:
        "w1 = w\<lparr>db_loads := db_loads w @ new\<rparr>"
        "new_loads sel = length new"
        "\<forall>l \<in> set new. status l = ''accept'' \<and> (\<exists>k. dt l = utc_insert e k)
           \<and> (\<forall>l0 \<in> set (db_loads w). dsm l0 \<noteq> dsm l)"
        "distinct (map dsm new)"
        "new \<noteq> [] \<longrightarrow> int (new_loads sel) \<le> r"
        by auto
      have props: "(\<forall>l \<in> set new. status l = ''accept'' \<and> (\<exists>k. dt l = utc_insert e k)
           \<and> (\<forall>l0 \<in> set (db_loads w). dsm l0 \<noteq> dsm l))
         \<and> distinct (map dsm new) \<and> (new \<noteq> [] \<longrightarrow> int (length new) \<le> r)"
        using n by simp
      obtain c p where al: "snd (accept_load w1 e
            (fold (\<lambda>aid. AList.update (Some aid) (FStr ''accept''))
                              (action_ids sel) (offers_inputs e)))
         = w1\<lparr>session_cookies := c, sent := sent w1 @ [Accept_post p]\<rparr>"
        using accept_load_frame by blast
      let ?P = "snd (process_offers w e r)"
      have "?P = w1
          \<or> ?P = w1\<lparr>session_cookies := c, sent := sent w1 @ [Accept_post p]\<rparr>
          \<or> ?P = w1\<lparr>session_cookies := c,
                   sent := sent w1 @ [Accept_post p, Telegram_post (text_blocks sel)]\<rparr>"
        using rows Inr sl al
        by (auto simp: process_offers_def Let_def split: option.splits prod.splits sum.splits)
      then consider
          "?P = w\<lparr>db_loads := db_loads w @ new, session_cookies := session_cookies w,
                  sent := sent w @ []\<rparr>"
        | "?P = w\<lparr>db_loads := db_loads w @ new, session_cookies := c,
                  sent := sent w @ [Accept_post p]\<rparr>"
        | "?P = w\<lparr>db_loads := db_loads w @ new, session_cookies := c,
                  sent := sent w @ [Accept_post p, Telegram_post (text_blocks sel)]\<rparr>"
        using n(1) by auto
      then show ?thesis
      proof cases
        case 1
        with props show ?thesis
          by (intro exI [of _ new] exI [of _ "session_cookies w"] exI [of _ "[]"]) simp
      next
        case 2
        with props show ?thesis
          by (intro exI [of _ new] exI [of _ c] exI [of _ "[Accept_post p]"]) simp
      next
        case 3
        with props show ?thesis
          by (intro exI [of _ new] exI [of _ c]
                exI [of _ "[Accept_post p, Telegram_post (text_blocks sel)]"]) simp
      qed
    qed
  qed
qed

section \<open>What a cycle changes\<close>

lemma login_frame:
  "\<exists>c k. snd (login w e)
       = w\<lparr>db_cache := k, session_cookies := c, sent := sent w @ [Login_post]\<rparr>"
proof -
  obtain c where c: "snd (session_request Login_post (login_resp e) w)
         = w\<lparr>session_cookies := c, sent := sent w @ [Login_post]\<rparr>"
    using session_request_frame by blast
  obtain res w1 where sr: "session_request Login_post (login_resp e) w = (res, w1)"
    by (metis prod.collapse)
  with c have w1: "w1 = w\<lparr>session_cookies := c, sent := sent w @ [Login_post]\<rparr>" by simp
  show ?thesis
  proof (cases res)
    case (Inl err)
    with sr w1 have "snd (login w e)
       = w\<lparr>db_cache := db_cache w, session_cookies := c, sent := sent w @ [Login_post]\<rparr>"
      by (simp add: login_def)
    then show ?thesis by blast
  next
    case (Inr r)
    with sr w1 have "snd (login w e)
       = w\<lparr>db_cache := Some \<lparr>cache_cookies = session_cookies w1, cache_dt = utc_login e\<rparr>,
           session_cookies := c, sent := sent w @ [Login_post]\<rparr>"
      by (simp add: login_def)
    then show ?thesis by blast
  qed
qed

lemma check_session_stale:
  "token_stale (db_cache w) (utc_session e) \<Longrightarrow> check_session w e = login w e"
  by (auto simp: token_stale_def check_session_def split: option.splits)

lemma check_session_fresh:
  assumes "\<not> token_stale (db_cache w) (utc_session e)"
  shows "\<exists>cache_doc. db_cache w = Some cache_doc
     \<and> check_session w e =
         (Inr (), if session_cookies w = []
                  then w\<lparr>session_cookies := cookies_update (cache_cookies cache_doc) []\<rparr>
                  else w)"
  using assms by (auto simp: token_stale_def check_session_def split: option.splits)

lemma check_session_frame:
  "\<exists>c k. snd (check_session w e)
       = w\<lparr>db_cache := k, session_cookies := c,
           sent := sent w @ (if token_stale (db_cache w) (utc_session e)
                             then [Login_post] else [])\<rparr>
     \<and> (\<not> token_stale (db_cache w) (utc_session e) \<longrightarrow> k = db_cache w)"
proof (cases "token_stale (db_cache w) (utc_session e)")
  case True
  with login_frame [of w e] check_session_stale [OF True] show ?thesis by auto
next
  case False
  from check_session_fresh [OF False]
  have "\<exists>c. snd (check_session w e) = w\<lparr>session_cookies := c\<rparr>"
  proof (elim exE conjE)
    fix cache_doc
    assume cs: "check_session w e =
         (Inr (), if session_cookies w = []
                  then w\<lparr>session_cookies := cookies_update (cache_cookies cache_doc) []\<rparr>
                  else w)"
    show ?thesis
    proof (cases "session_cookies w = []")
      case True
      with cs have "snd (check_session w e)
          = w\<lparr>session_cookies := cookies_update (cache_cookies cache_doc) []\<rparr>"
        by simp
      then show ?thesis by (rule exI)
    next
      case False
      with cs have "snd (check_session w e) = w\<lparr>session_cookies := session_cookies w\<rparr>"
        by simp
      then show ?thesis by (rule exI)
    qed
  qed
  then obtain c where "snd (check_session w e) = w\<lparr>session_cookies := c\<rparr>" ..
  then have "snd (check_session w e)
       = w\<lparr>db_cache := db_cache w, session_cookies := c, sent := sent w @ []\<rparr>" by simp
  with False show ?thesis by auto
qed

lemma fetch_offers_frame:
  "\<exists>new c extra k. snd (fetch_offers w e)
       = w\<lparr>db_cache := k, db_loads := db_loads w @ new, session_cookies := c,
           sent := sent w @ extra\<rparr>
     \<and> length (filter (\<lambda>q. q = Login_post) extra)
         = (if (case check_accepted_load_threshold w e of Inl err \<Rightarrow> False | Inr r \<Rightarrow> 0 < r)
               \<and> token_stale (db_cache w) (utc_session e) then 1 else 0)
     \<and> (\<not> token_stale (db_cache w) (utc_session e) \<longrightarrow> k = db_cache w)
     \<and> (\<forall>l \<in> set new. status l = ''accept'' \<and> (\<exists>k. dt l = utc_insert e k)
           \<and> (\<forall>l0 \<in> set (db_loads w). dsm l0 \<noteq> dsm l))
     \<and> distinct (map dsm new)
     \<and> (new \<noteq> [] \<longrightarrow>
          (\<exists>r. check_accepted_load_threshold w e = Inr r \<and> int (length new) \<le> r))"
proof -
  let ?stale = "token_stale (db_cache w) (utc_session e)"
  let ?gate = "case check_accepted_load_threshold w e of Inl err \<Rightarrow> False | Inr r \<Rightarrow> 0 < r"
  have unchanged: ?thesis if "snd (fetch_offers w e) = w" "\<not> ?gate"
  proof -
    from that have "snd (fetch_offers w e)
       = w\<lparr>db_cache := db_cache w, db_loads := db_loads w @ [],
           session_cookies := session_cookies w, sent := sent w @ []\<rparr>" by simp
    with that(2) show ?thesis
      by (intro exI [of _ "[]"] exI [of _ "session_cookies w"] exI [of _ "db_cache w"]) simp
  qed
  show ?thesis
  proof (cases "check_accepted_load_threshold w e")
    case (Inl err)
    then show ?thesis by (intro unchanged) (simp_all add: fetch_offers_def)
  next
    case (Inr r)
    show ?thesis
    proof (cases "r \<le> 0")
      case True
      with Inr show ?thesis by (intro unchanged) (simp_all add: fetch_offers_def)
    next
      case pos: False
      with Inr have gate: ?gate by simp
      let ?lg = "if ?stale then [Login_post] else []"
      obtain c1 k1 where
        w1: "snd (check_session w e)
               = w\<lparr>db_cache := k1, session_cookies := c1, sent := sent w @ ?lg\<rparr>"
        and k1: "\<not> ?stale \<longrightarrow> k1 = db_cache w"
        using check_session_frame [of w e] by blast
      define w1 where "w1 = snd (check_session w e)"
      obtain c2 where
        w2: "snd (session_request Offers_get (offers_resp e) w1)
               = w1\<lparr>session_cookies := c2, sent := sent w1 @ [Offers_get]\<rparr>"
        using session_request_frame by blast
      define w2 where "w2 = snd (session_request Offers_get (offers_resp e) w1)"
      obtain new c3 extra3 where
        w3: "snd (process_offers w2 e r)
               = w2\<lparr>db_loads := db_loads w2 @ new, session_cookies := c3,
                    sent := sent w2 @ extra3\<rparr>"
        and nl: "Login_post \<notin> set extra3"
        and p1: "\<forall>l \<in> set new. status l = ''accept'' \<and> (\<exists>k. dt l = utc_insert e k)
           \<and> (\<forall>l0 \<in> set (db_loads w2). dsm l0 \<noteq> dsm l)"
        and p2: "distinct (map dsm new)"
        and p3: "new \<noteq> [] \<longrightarrow> int (length new) \<le> r"
        using process_offers_frame [of w2 e r] by blast
      have e1: "w1 = w\<lparr>db_cache := k1, db_loads := db_loads w @ [],
                        session_cookies := c1, sent := sent w @ ?lg\<rparr>"
        using w1 by (simp add: w1_def)
      have e2: "w2 = w\<lparr>db_cache := k1, db_loads := db_loads w @ [],
                        session_cookies := c2, sent := sent w @ (?lg @ [Offers_get])\<rparr>"
        using w2 e1 by (simp add: w2_def)
      have e3: "snd (process_offers w2 e r)
                  = w\<lparr>db_cache := k1, db_loads := db_loads w @ new,
                        session_cookies := c3,
                        sent := sent w @ (?lg @ [Offers_get] @ extra3)\<rparr>"
        using w3 e2 by simp
      have l2: "db_loads w2 = db_loads w" using e2 by simp
      have alt: "snd (fetch_offers w e) = w1 \<or> snd (fetch_offers w e) = w2
                 \<or> snd (fetch_offers w e) = snd (process_offers w2 e r)"
        using Inr pos
        by (auto simp: fetch_offers_def w1_def w2_def split: prod.splits sum.splits)
      have cnt: "length (filter (\<lambda>q. q = Login_post) ?lg) = (if ?gate \<and> ?stale then 1 else 0)"
        "length (filter (\<lambda>q. q = Login_post) (?lg @ [Offers_get]))
           = (if ?gate \<and> ?stale then 1 else 0)"
        "length (filter (\<lambda>q. q = Login_post) (?lg @ [Offers_get] @ extra3))
           = (if ?gate \<and> ?stale then 1 else 0)"
        using gate nl by (auto simp: filter_empty_conv)
      from alt consider "snd (fetch_offers w e) = w1" | "snd (fetch_offers w e) = w2"
        | "snd (fetch_offers w e) = snd (process_offers w2 e r)" by blast
      then show ?thesis
      proof cases
        case 1
        with e1 cnt(1) k1 show ?thesis
          by (intro exI [of _ "[]"] exI [of _ c1] exI [of _ ?lg] exI [of _ k1]) simp
      next
        case 2
        with e2 cnt(2) k1 show ?thesis
          by (intro exI [of _ "[]"] exI [of _ c2] exI [of _ "?lg @ [Offers_get]"]
                exI [of _ k1]) simp
      next
        case 3
        with e3 cnt(3) k1 p1 p2 p3 l2 Inr show ?thesis
          by (intro exI [of _ new] exI [of _ c3] exI [of _ "?lg @ [Offers_get] @ extra3"]
                exI [of _ k1]) simp
      qed
    qed
  qed
qed

lemma threshold_ignores_status:
  "check_accepted_load_threshold (w\<lparr>db_status := s\<rparr>) e = check_accepted_load_threshold w e"
  by (simp add: check_accepted_load_threshold_def)

lemma check_loads_frame:
  "\<exists>new c extra k s. snd (check_loads w e)
       = w\<lparr>db_cache := k, db_status := s, db_loads := db_loads w @ new,
           session_cookies := c, sent := sent w @ extra\<rparr>
     \<and> length (filter (\<lambda>q. q = Login_post) extra)
         = (if reaches_session w e \<and> token_stale (db_cache w) (utc_session e) then 1 else 0)
     \<and> (\<not> token_stale (db_cache w) (utc_session e) \<longrightarrow> k = db_cache w)
     \<and> (\<forall>l \<in> set new. status l = ''accept'' \<and> (\<exists>k. dt l = utc_insert e k)
           \<and> (\<forall>l0 \<in> set (db_loads w). dsm l0 \<noteq> dsm l))
     \<and> distinct (map dsm new)
     \<and> (new \<noteq> [] \<longrightarrow>
          (\<exists>r. check_accepted_load_threshold w e = Inr r \<and> int (length new) \<le> r))"
proof -
  have unchanged: ?thesis if "snd (check_loads w e) = w" "\<not> reaches_session w e"
  proof -
    from that have "snd (check_loads w e)
       = w\<lparr>db_cache := db_cache w, db_status := db_status w, db_loads := db_loads w @ [],
           session_cookies := session_cookies w, sent := sent w @ []\<rparr>" by simp
    with that(2) show ?thesis
      by (intro exI [of _ "[]"] exI [of _ "session_cookies w"] exI [of _ "db_cache w"]
            exI [of _ "db_status w"]) simp
  qed
  have through: ?thesis
    if cl: "check_loads w e = fetch_offers (w\<lparr>db_status := s\<rparr>) e"
      and rs: "reaches_session w e
         = (case check_accepted_load_threshold w e of Inl err \<Rightarrow> False | Inr r \<Rightarrow> 0 < r)"
    for s
  proof -
    let ?w = "w\<lparr>db_status := s\<rparr>"
    from fetch_offers_frame [of ?w e] obtain new c extra k where
      f: "snd (fetch_offers ?w e)
            = ?w\<lparr>db_cache := k, db_loads := db_loads ?w @ new, session_cookies := c,
                 sent := sent ?w @ extra\<rparr>"
      and g: "length (filter (\<lambda>q. q = Login_post) extra)
         = (if (case check_accepted_load_threshold ?w e of Inl err \<Rightarrow> False | Inr r \<Rightarrow> 0 < r)
               \<and> token_stale (db_cache ?w) (utc_session e) then 1 else 0)"
      and h: "\<not> token_stale (db_cache ?w) (utc_session e) \<longrightarrow> k = db_cache ?w"
      and p1: "\<forall>l \<in> set new. status l = ''accept'' \<and> (\<exists>k. dt l = utc_insert e k)
           \<and> (\<forall>l0 \<in> set (db_loads ?w). dsm l0 \<noteq> dsm l)"
      and p2: "distinct (map dsm new)"
      and p3: "new \<noteq> [] \<longrightarrow>
          (\<exists>r. check_accepted_load_threshold ?w e = Inr r \<and> int (length new) \<le> r)"
      by blast
    have f': "snd (check_loads w e)
       = w\<lparr>db_cache := k, db_status := s, db_loads := db_loads w @ new,
           session_cookies := c, sent := sent w @ extra\<rparr>"
      using f cl by simp
    from g h p1 p2 p3 rs f' show ?thesis
      unfolding threshold_ignores_status
      by (intro exI [of _ new] exI [of _ c] exI [of _ extra] exI [of _ k] exI [of _ s]) simp
  qed
  show ?thesis
  proof (cases "hour (now_time e) < 6 \<or> hour (now_time e) > 18")
    case True
    then show ?thesis
      by (intro unchanged) (auto simp: check_loads_def reaches_session_def)
  next
    case hrs: False
    show ?thesis
    proof (cases "db_status w")
      case None
      with hrs show ?thesis
        by (intro through [of "Some \<lparr>enabled = True\<rparr>"])
           (auto simp: check_loads_def reaches_session_def)
    next
      case (Some sd)
      show ?thesis
      proof (cases "enabled sd")
        case True
        have "w\<lparr>db_status := db_status w\<rparr> = w" by simp
        moreover from True hrs Some have "check_loads w e = fetch_offers w e"
          by (simp add: check_loads_def)
        ultimately have "check_loads w e = fetch_offers (w\<lparr>db_status := db_status w\<rparr>) e"
          by simp
        moreover from hrs Some True have "reaches_session w e
         = (case check_accepted_load_threshold w e of Inl err \<Rightarrow> False | Inr r \<Rightarrow> 0 < r)"
          by (auto simp: reaches_session_def)
        ultimately show ?thesis by (rule through)
      next
        case False
        with hrs Some show ?thesis
          by (intro unchanged) (auto simp: check_loads_def reaches_session_def)
      qed
    qed
  qed
qed

section \<open>Deduplication\<close>

lemma accept_load_sent:
  "sent (snd (accept_load w e data)) = sent w @ [Accept_post (accept_payload data)]"
  by (simp add: accept_load_def session_request_def Let_def split: option.splits)

lemma fold_accept_lookup:
  "map_of (fold (\<lambda>aid. AList.update (Some aid) (FStr ''accept'')) ids inputs) k
     = (if k \<in> Some ` set ids then Some (FStr ''accept'') else map_of inputs k)"
  by (induction ids arbitrary: inputs) (auto simp: update_conv')

lemma accept_payload_lookup:
  "map_of (accept_payload
      (fold (\<lambda>aid. AList.update (Some aid) (FStr ''accept'')) ids inputs)) k
     = (if k = Some ''submit.y'' then Some (FInt 13)
        else if k = Some ''submit.x'' then Some (FInt 30)
        else if k = Some ''biddingLocationId'' then Some (FInt 227871)
        else if k = Some ''postedByUserId'' then Some FNone
        else if k \<in> Some ` set ids then Some (FStr ''accept'')
        else map_of inputs k)"
  by (simp add: accept_payload_def update_conv' fold_accept_lookup)

lemma process_offers_sends:
  "\<exists>new. db_loads (snd (process_offers w e r)) = db_loads w @ new
     \<and> (\<forall>l \<in> set new. \<forall>l0 \<in> set (db_loads w). dsm l0 \<noteq> dsm l)
     \<and> (sent (snd (process_offers w e r)) = sent w
         \<or> sent (snd (process_offers w e r))
             = sent w @ [Accept_post (accept_payload
                 (fold (\<lambda>aid. AList.update (Some aid) (FStr ''accept''))
                    (map action_id new) (offers_inputs e)))]
         \<or> sent (snd (process_offers w e r))
             = sent w @ [Accept_post (accept_payload
                 (fold (\<lambda>aid. AList.update (Some aid) (FStr ''accept''))
                    (map action_id new) (offers_inputs e))),
                 Telegram_post (map text_block_of new)])"
proof -
  have unchanged: ?thesis if "snd (process_offers w e r) = w"
    using that by (intro exI [of _ "[]"]) simp
  show ?thesis
  proof (cases "offers_rows e = []")
    case True
    then show ?thesis by (intro unchanged) (simp add: process_offers_def)
  next
    case rows: False
    show ?thesis
    proof (cases "parse_entries (offers_rows e)")
      case (Inl err)
      with rows show ?thesis by (intro unchanged) (simp add: process_offers_def)
    next
      case (Inr parsed)
      obtain res w1 sel where sl: "select_loads e r (db_logic w)
           (w, \<lparr>new_loads = 0, action_ids = [], text_blocks = []\<rparr>)
           (sort_key weight_lbs parsed) = (res, w1, sel)"
        by (metis prod.collapse)
      from select_loads_new [OF sl] obtain new where n:
        "w1 = w\<lparr>db_loads := db_loads w @ new\<rparr>"
        "action_ids sel = map action_id new"
        "text_blocks sel = map text_block_of new"
        "\<forall>l \<in> set new. \<forall>l0 \<in> set (db_loads w). dsm l0 \<noteq> dsm l"
        by auto
      let ?data = "fold (\<lambda>aid. AList.update (Some aid) (FStr ''accept''))
                    (map action_id new) (offers_inputs e)"
      let ?P = "snd (process_offers w e r)"
      have l: "db_loads (snd (accept_load w1 e ?data)) = db_loads w @ new"
        using accept_load_loads [of w1 e ?data] n(1) by simp
      have s: "sent (snd (accept_load w1 e ?data))
                 = sent w @ [Accept_post (accept_payload ?data)]"
        using accept_load_sent [of w1 e ?data] n(1) by simp
      have "?P = w1 \<or> ?P = snd (accept_load w1 e ?data)
          \<or> ?P = (snd (accept_load w1 e ?data))
                   \<lparr>sent := sent (snd (accept_load w1 e ?data))
                              @ [Telegram_post (map text_block_of new)]\<rparr>"
        using rows Inr sl n(2,3)
        by (auto simp: process_offers_def Let_def split: option.splits prod.splits sum.splits)
      then consider "?P = w1" | "?P = snd (accept_load w1 e ?data)"
        | "?P = (snd (accept_load w1 e ?data))
                   \<lparr>sent := sent (snd (accept_load w1 e ?data))
                              @ [Telegram_post (map text_block_of new)]\<rparr>" by blast
      then show ?thesis
      proof cases
        case 1
        with n(1,4) show ?thesis by (intro exI [of _ new]) simp
      next
        case 2
        with l s n(4) show ?thesis by (intro exI [of _ new]) simp
      next
        case 3
        with l s n(4) show ?thesis by (intro exI [of _ new]) simp
      qed
    qed
  qed
qed

text \<open>
  C2, as the code has it. An offer whose \<^verbatim>\<open>dsm\<close> already has a record in \<^verbatim>\<open>db.loads\<close>
  when the loop reaches it is passed over: the pass changes neither the store nor the
  action ids, the notification text or the counter. Over the whole loop, the action
  ids the cycle sets and the blocks it notifies are exactly those of the records the
  loop has just inserted, and none of these has a \<^verbatim>\<open>dsm\<close> that was stored before. After
  the loop the cycle sends nothing, or one acceptance, followed or not by one
  notification of these blocks. A cycle adds no record for a \<^verbatim>\<open>dsm\<close> that the store
  already holds. The posted form is the form of the page with the four fixed fields
  and the action ids of the new records written over it: any other field, also the
  action input of a stored offer, goes out with the value the page gave it.
\<close>

theorem stored_offer_not_selected:
  "(entry_dsm x = Inr d \<and> (\<exists>l \<in> set (db_loads w). dsm l = d)
      \<longrightarrow> select_entry e r lg (w, sel) x = (None, w, sel))
   \<and> (select_loads e r lg (w, sel) xs = (res, w', sel')
      \<longrightarrow> (\<exists>new. db_loads w' = db_loads w @ new
             \<and> action_ids sel' = action_ids sel @ map action_id new
             \<and> text_blocks sel' = text_blocks sel @ map text_block_of new
             \<and> (\<forall>l \<in> set new. \<forall>l0 \<in> set (db_loads w). dsm l0 \<noteq> dsm l)))
   \<and> (\<exists>new. db_loads (snd (process_offers w e r)) = db_loads w @ new
         \<and> (\<forall>l \<in> set new. \<forall>l0 \<in> set (db_loads w). dsm l0 \<noteq> dsm l)
         \<and> (sent (snd (process_offers w e r)) = sent w
             \<or> sent (snd (process_offers w e r))
                 = sent w @ [Accept_post (accept_payload
                     (fold (\<lambda>aid. AList.update (Some aid) (FStr ''accept''))
                        (map action_id new) (offers_inputs e)))]
             \<or> sent (snd (process_offers w e r))
                 = sent w @ [Accept_post (accept_payload
                     (fold (\<lambda>aid. AList.update (Some aid) (FStr ''accept''))
                        (map action_id new) (offers_inputs e))),
                     Telegram_post (map text_block_of new)]))
   \<and> (l0 \<in> set (db_loads w)
      \<longrightarrow> filter (\<lambda>l. dsm l = dsm l0) (db_loads (snd (check_loads w e)))
          = filter (\<lambda>l. dsm l = dsm l0) (db_loads w))
   \<and> map_of (accept_payload
         (fold (\<lambda>aid. AList.update (Some aid) (FStr ''accept'')) ids inputs)) k
       = (if k = Some ''submit.y'' then Some (FInt 13)
          else if k = Some ''submit.x'' then Some (FInt 30)
          else if k = Some ''biddingLocationId'' then Some (FInt 227871)
          else if k = Some ''postedByUserId'' then Some FNone
          else if k \<in> Some ` set ids then Some (FStr ''accept'')
          else map_of inputs k)"
proof -
  have a: "select_entry e r lg (w, sel) x = (None, w, sel)"
    if "entry_dsm x = Inr d" "\<exists>l \<in> set (db_loads w). dsm l = d"
    using that by (simp add: select_entry_def list_ex_iff)
  have b: "\<exists>new. db_loads w' = db_loads w @ new
             \<and> action_ids sel' = action_ids sel @ map action_id new
             \<and> text_blocks sel' = text_blocks sel @ map text_block_of new
             \<and> (\<forall>l \<in> set new. \<forall>l0 \<in> set (db_loads w). dsm l0 \<noteq> dsm l)"
    if "select_loads e r lg (w, sel) xs = (res, w', sel')"
  proof -
    from select_loads_new [OF that] obtain new where
      "w' = w\<lparr>db_loads := db_loads w @ new\<rparr>"
      "action_ids sel' = action_ids sel @ map action_id new"
      "text_blocks sel' = text_blocks sel @ map text_block_of new"
      "\<forall>l \<in> set new. \<forall>l0 \<in> set (db_loads w). dsm l0 \<noteq> dsm l"
      by blast
    then show ?thesis by (intro exI [of _ new]) simp
  qed
  have c: "filter (\<lambda>l. dsm l = dsm l0) (db_loads (snd (check_loads w e)))
          = filter (\<lambda>l. dsm l = dsm l0) (db_loads w)"
    if "l0 \<in> set (db_loads w)"
  proof -
    from check_loads_frame [of w e] obtain new c extra k s where
      f: "snd (check_loads w e)
           = w\<lparr>db_cache := k, db_status := s, db_loads := db_loads w @ new,
               session_cookies := c, sent := sent w @ extra\<rparr>"
      and n: "\<forall>l \<in> set new. \<forall>l0 \<in> set (db_loads w). dsm l0 \<noteq> dsm l"
      by blast
    from n that have "\<forall>l \<in> set new. dsm l \<noteq> dsm l0" by metis
    then have "filter (\<lambda>l. dsm l = dsm l0) new = []"
      by (simp add: filter_empty_conv)
    with f show ?thesis by simp
  qed
  from a b process_offers_sends [of w e r] c accept_payload_lookup [of ids inputs k]
  show ?thesis by blast
qed

theorem stored_offer_not_selected_witness:
  "select_entry e_noon 5 (db_logic w_ready)
      (snd (check_loads w_ready e_noon), \<lparr>new_loads = 0, action_ids = [], text_blocks = []\<rparr>)
      \<lparr>cells = offers_rows e_noon ! 1, weight_lbs = 100\<rparr>
     = (None, snd (check_loads w_ready e_noon),
        \<lparr>new_loads = 0, action_ids = [], text_blocks = []\<rparr>)
   \<and> filter (\<lambda>l. dsm l = 102)
        (db_loads (snd (check_loads (snd (check_loads w_ready e_noon)) e_noon)))
     = filter (\<lambda>l. dsm l = 102) (db_loads (snd (check_loads w_ready e_noon)))
   \<and> (\<exists>new. db_loads (fst (snd (select_loads e_noon 2 (db_logic w_ready)
           (w_ready, \<lparr>new_loads = 0, action_ids = [], text_blocks = []\<rparr>)
           (sort_key weight_lbs (projr (parse_entries (offers_rows e_noon)))))))
         = db_loads w_ready @ new
       \<and> (\<forall>l \<in> set new. \<forall>l0 \<in> set (db_loads w_ready). dsm l0 \<noteq> dsm l))"
proof -
  let ?w = "snd (check_loads w_ready e_noon)"
  let ?x = "\<lparr>cells = offers_rows e_noon ! 1, weight_lbs = 100\<rparr>"
  let ?s0 = "\<lparr>new_loads = 0, action_ids = [], text_blocks = []\<rparr>"
  let ?xs = "sort_key weight_lbs (projr (parse_entries (offers_rows e_noon)))"
  have d: "entry_dsm ?x = Inr 102" by code_simp
  have l: "db_loads ?w ! 0 \<in> set (db_loads ?w)" "dsm (db_loads ?w ! 0) = 102" by code_simp+
  then have ex: "\<exists>l \<in> set (db_loads ?w). dsm l = 102" by blast
  obtain res w' sel' where sl:
    "select_loads e_noon 2 (db_logic w_ready) (w_ready, ?s0) ?xs = (res, w', sel')"
    by (metis prod.collapse)
  from d ex l
    stored_offer_not_selected [of ?x 102 ?w e_noon 5 "db_logic w_ready" ?s0 "[]" None ?w ?s0
       "db_loads ?w ! 0"]
  have 1: "select_entry e_noon 5 (db_logic w_ready) (?w, ?s0) ?x = (None, ?w, ?s0)"
    and 2: "filter (\<lambda>l. dsm l = 102) (db_loads (snd (check_loads ?w e_noon)))
              = filter (\<lambda>l. dsm l = 102) (db_loads ?w)"
    by simp_all
  from sl
    stored_offer_not_selected [of ?x 102 w_ready e_noon 2 "db_logic w_ready" ?s0 ?xs res w' sel'
       "db_loads ?w ! 0"]
  have 3: "\<exists>new. db_loads w' = db_loads w_ready @ new
       \<and> (\<forall>l \<in> set new. \<forall>l0 \<in> set (db_loads w_ready). dsm l0 \<noteq> dsm l)"
    by blast
  from 1 2 3 sl show ?thesis by simp
qed

text \<open>
  Offer 101 is stored and the form of the page carries \<^verbatim>\<open>action101 = "accept"\<close>. The cycle
  stores and notifies only 102 and 103, and the form it posts still accepts 101.
\<close>

theorem stored_offer_counterexample:
  "map dsm (db_loads w_stored) = [101]
   \<and> map dsm (db_loads (snd (check_loads w_stored e_form))) = [101, 102, 103]
   \<and> sent (snd (check_loads w_stored e_form)) ! 2
       = Accept_post
          [(Some ''initialized'', FBool True),
           (Some ''action101'', FStr ''accept''),
           (Some ''action102'', FStr ''accept''),
           (Some ''action103'', FStr ''accept''),
           (Some ''postedByUserId'', FNone),
           (Some ''biddingLocationId'', FInt 227871),
           (Some ''submit.x'', FInt 30), (Some ''submit.y'', FInt 13)]
   \<and> length (sent (snd (check_loads w_stored e_form))) = 4"
  by code_simp

section \<open>The daily quota\<close>

lemma day_us_pos: "0 < day_us"
  by (simp add: day_us_def)

lemma day_start_le:
  assumes "day_of a = day_of b"
  shows "a - a mod day_us \<le> b"
proof -
  have "a - a mod day_us = day_us * (a div day_us)"
    by (simp add: minus_mod_eq_mult_div)
  also have "\<dots> = day_us * (b div day_us)"
    using assms by (simp add: day_of_def)
  also have "\<dots> \<le> b"
    using day_us_pos by (simp add: minus_mod_eq_mult_div [symmetric])
  finally show ?thesis .
qed

lemma length_filter_mono:
  "(\<And>x. x \<in> set xs \<Longrightarrow> P x \<Longrightarrow> Q x) \<Longrightarrow> length (filter P xs) \<le> length (filter Q xs)"
  by (induction xs) auto

lemma remaining_le:
  assumes "day_of (utc_threshold e) = d" and "db_threshold w = Some t"
    and "check_accepted_load_threshold w e = Inr r"
  shows "r + int (accepted_on d w) \<le> threshold t"
proof -
  let ?today = "utc_threshold e - utc_threshold e mod day_us"
  have "accepted_on d w
      \<le> length (filter (\<lambda>l. status l = ''accept'' \<and> ?today \<le> dt l) (db_loads w))"
    unfolding accepted_on_def
    using day_start_le [of "utc_threshold e"] assms(1)
    by (intro length_filter_mono) auto
  moreover have "r = threshold t
      - int (length (filter (\<lambda>l. status l = ''accept'' \<and> ?today \<le> dt l) (db_loads w)))"
    using assms(2,3) by (simp add: check_accepted_load_threshold_def Let_def)
  ultimately show ?thesis by simp
qed

lemma cycle_keeps_quota:
  assumes day: "env_on_day d e" and t: "db_threshold w = Some t"
    and le: "int (accepted_on d w) \<le> threshold t"
  shows "int (accepted_on d (snd (check_loads w e))) \<le> threshold t
     \<and> db_threshold (snd (check_loads w e)) = Some t"
proof -
  from check_loads_frame [of w e] obtain new c extra k s where
    f: "snd (check_loads w e)
         = w\<lparr>db_cache := k, db_status := s, db_loads := db_loads w @ new,
             session_cookies := c, sent := sent w @ extra\<rparr>"
    and n: "new \<noteq> [] \<longrightarrow>
          (\<exists>r. check_accepted_load_threshold w e = Inr r \<and> int (length new) \<le> r)"
    by blast
  have th: "db_threshold (snd (check_loads w e)) = Some t" using f t by simp
  have cnt: "accepted_on d (snd (check_loads w e))
      = accepted_on d w
        + length (filter (\<lambda>l. status l = ''accept'' \<and> day_of (dt l) = d) new)"
    using f by (simp add: accepted_on_def)
  have "int (accepted_on d (snd (check_loads w e))) \<le> threshold t"
  proof (cases "new = []")
    case True
    with cnt le show ?thesis by simp
  next
    case False
    with n obtain r where r: "check_accepted_load_threshold w e = Inr r"
      "int (length new) \<le> r" by blast
    from day have "day_of (utc_threshold e) = d" by (simp add: env_on_day_def)
    from remaining_le [OF this t r(1)] have "r + int (accepted_on d w) \<le> threshold t" .
    moreover have "length (filter (\<lambda>l. status l = ''accept'' \<and> day_of (dt l) = d) new)
        \<le> length new" by simp
    ultimately show ?thesis using cnt r(2) by linarith
  qed
  with th show ?thesis by simp
qed

lemma main_loop_keeps_quota:
  "\<forall>e \<in> set es. env_on_day d e \<Longrightarrow> db_threshold w = Some t
     \<Longrightarrow> int (accepted_on d w) \<le> threshold t
     \<Longrightarrow> int (accepted_on d (snd (main_loop w es))) \<le> threshold t"
proof (induction es arbitrary: w)
  case Nil
  then show ?case by simp
next
  case (Cons e es)
  obtain res w1 where cl: "check_loads w e = (res, w1)" by (metis prod.collapse)
  from Cons.prems have "env_on_day d e" by simp
  from cycle_keeps_quota [OF this Cons.prems(2,3)] cl
  have w1: "int (accepted_on d w1) \<le> threshold t" "db_threshold w1 = Some t" by simp_all
  show ?case
  proof (cases res)
    case (Inl err)
    with cl w1 show ?thesis by simp
  next
    case (Inr v)
    from Cons.prems have "\<forall>e \<in> set es. env_on_day d e" by simp
    from Cons.IH [OF this w1(2) w1(1)] cl Inr show ?thesis by simp
  qed
qed

text \<open>
  C1. Let the store hold a threshold document and at most that many accepted loads
  dated on a UTC day. Then after any run of the scheduler loop whose cycles take
  their quota on that day, and after any single such cycle, the accepted loads dated
  on that day still do not exceed the threshold, and the threshold document is
  unchanged. A cycle computes the remaining capacity before it selects, stores at
  most that many records (none when it is zero or negative), and a record is
  inserted only while the count of loads selected so far in the cycle is strictly
  below the remaining capacity.
\<close>

theorem daily_quota_never_exceeded:
  "((\<forall>e \<in> set es. env_on_day d e) \<and> db_threshold w = Some t
      \<and> int (accepted_on d w) \<le> threshold t
      \<longrightarrow> int (accepted_on d (snd (main_loop w es))) \<le> threshold t)
   \<and> (env_on_day d e \<and> db_threshold w = Some t \<and> int (accepted_on d w) \<le> threshold t
      \<longrightarrow> int (accepted_on d (snd (check_loads w e))) \<le> threshold t
          \<and> db_threshold (snd (check_loads w e)) = Some t)
   \<and> (check_accepted_load_threshold w e = Inr r
      \<longrightarrow> int (length (db_loads (snd (check_loads w e)))) - int (length (db_loads w))
            \<le> max 0 r)
   \<and> (select_entry e r lg (w, sel) x = (res, w', sel') \<and> db_loads w' \<noteq> db_loads w
      \<longrightarrow> int (new_loads sel) < r)"
proof -
  have c: "int (length (db_loads (snd (check_loads w e)))) - int (length (db_loads w))
            \<le> max 0 r" if "check_accepted_load_threshold w e = Inr r"
  proof -
    from check_loads_frame [of w e] obtain new c extra k s where
      f: "snd (check_loads w e)
         = w\<lparr>db_cache := k, db_status := s, db_loads := db_loads w @ new,
             session_cookies := c, sent := sent w @ extra\<rparr>"
      and n: "new \<noteq> [] \<longrightarrow>
          (\<exists>r. check_accepted_load_threshold w e = Inr r \<and> int (length new) \<le> r)"
      by blast
    from n that have "int (length new) \<le> max 0 r" by (cases "new = []") auto
    with f show ?thesis by simp
  qed
  have d: "int (new_loads sel) < r"
    if "select_entry e r lg (w, sel) x = (res, w', sel')" "db_loads w' \<noteq> db_loads w"
    using select_entry_cases [OF that(1)] that(2) by auto
  from main_loop_keeps_quota cycle_keeps_quota c d show ?thesis by blast
qed

lemma noon_on_day_0: "env_on_day 0 e_noon"
  by (simp add: env_on_day_def day_of_def day_us_def e_noon_def)

lemma noon_counts:
  "accepted_on 0 w_ready = 0"
  "accepted_on 0 (snd (main_loop w_ready [e_noon, e_noon, e_noon])) = 2"
  by code_simp+

theorem daily_quota_never_exceeded_witness:
  "int (accepted_on 0 (snd (main_loop w_ready [e_noon, e_noon, e_noon]))) \<le> 2
   \<and> int (accepted_on 0 (snd (check_loads w_ready e_noon))) \<le> 2
   \<and> int (length (db_loads (snd (check_loads w_ready e_noon)))) - int (length (db_loads w_ready))
       \<le> max 0 2"
proof -
  have t: "db_threshold w_ready = Some \<lparr>threshold = 2\<rparr>" by (simp add: w_ready_def)
  have r: "check_accepted_load_threshold w_ready e_noon = Inr 2" by code_simp
  from noon_on_day_0 noon_counts(1) t r
    daily_quota_never_exceeded
      [of "[e_noon, e_noon, e_noon]" 0 w_ready "\<lparr>threshold = 2\<rparr>" e_noon 2]
  show ?thesis by simp
qed

section \<open>Session reuse\<close>

lemma check_session_sent:
  "sent (snd (check_session w e))
     = sent w @ (if token_stale (db_cache w) (utc_session e) then [Login_post] else [])"
proof -
  from check_session_frame [of w e] obtain c k where
    "snd (check_session w e)
       = w\<lparr>db_cache := k, session_cookies := c,
           sent := sent w @ (if token_stale (db_cache w) (utc_session e)
                             then [Login_post] else [])\<rparr>" by blast
  then show ?thesis by simp
qed

lemma check_loads_logins:
  "logins (snd (check_loads w e))
     = logins w + (if reaches_session w e \<and> token_stale (db_cache w) (utc_session e)
                   then 1 else 0)
   \<and> (\<not> token_stale (db_cache w) (utc_session e)
        \<longrightarrow> db_cache (snd (check_loads w e)) = db_cache w)"
proof -
  from check_loads_frame [of w e] obtain new c extra k s where
    f: "snd (check_loads w e)
         = w\<lparr>db_cache := k, db_status := s, db_loads := db_loads w @ new,
             session_cookies := c, sent := sent w @ extra\<rparr>"
    and g: "length (filter (\<lambda>q. q = Login_post) extra)
         = (if reaches_session w e \<and> token_stale (db_cache w) (utc_session e) then 1 else 0)"
    and h: "\<not> token_stale (db_cache w) (utc_session e) \<longrightarrow> k = db_cache w"
    by blast
  from f g h show ?thesis by (simp add: logins_def)
qed

lemma login_caches:
  "login_resp e = Some r \<Longrightarrow>
     db_cache (snd (login w e))
       = Some \<lparr>cache_cookies = cookies_update (set_cookies r) (session_cookies w),
               cache_dt = utc_login e\<rparr>"
  by (simp add: login_def session_request_def)

text \<open>
  C7. \<^verbatim>\<open>check_session\<close> sends a login request exactly when the cached token is missing
  or its \<^verbatim>\<open>dt\<close> is more than one hour old, and a login that gets its response caches
  the jar with a fresh \<^verbatim>\<open>dt\<close>. Otherwise nothing is sent and the store is left alone:
  the cached cookies are loaded into the session when its jar is empty, and the
  session is untouched when it is not. A cycle adds one login if it reaches
  \<^verbatim>\<open>check_session\<close> with a stale token and none otherwise, so two cycles within the
  hour of the cached token send no login and leave that token cached.
\<close>

theorem login_iff_token_stale:
  "(token_stale (db_cache w) (utc_session e)
      \<longleftrightarrow> db_cache w = None
          \<or> (\<exists>c. db_cache w = Some c \<and> hour_us < utc_session e - cache_dt c))
   \<and> sent (snd (check_session w e))
       = sent w @ (if token_stale (db_cache w) (utc_session e) then [Login_post] else [])
   \<and> (token_stale (db_cache w) (utc_session e) \<and> login_resp e = Some r
        \<longrightarrow> db_cache (snd (check_session w e))
            = Some \<lparr>cache_cookies = cookies_update (set_cookies r) (session_cookies w),
                    cache_dt = utc_login e\<rparr>)
   \<and> (db_cache w = Some c \<and> \<not> hour_us < utc_session e - cache_dt c
        \<longrightarrow> check_session w e
            = (Inr (), if session_cookies w = []
                       then w\<lparr>session_cookies := cookies_update (cache_cookies c) []\<rparr>
                       else w))
   \<and> logins (snd (check_loads w e))
       = logins w + (if reaches_session w e \<and> token_stale (db_cache w) (utc_session e)
                     then 1 else 0)
   \<and> (\<not> token_stale (db_cache w) (utc_session e)
        \<and> \<not> token_stale (db_cache w) (utc_session e2)
        \<longrightarrow> logins (snd (check_loads (snd (check_loads w e)) e2)) = logins w
            \<and> db_cache (snd (check_loads (snd (check_loads w e)) e2)) = db_cache w)"
proof -
  have a: "token_stale (db_cache w) (utc_session e)
      \<longleftrightarrow> db_cache w = None
          \<or> (\<exists>c. db_cache w = Some c \<and> hour_us < utc_session e - cache_dt c)"
    by (auto simp: token_stale_def split: option.splits)
  have c: "db_cache (snd (check_session w e))
            = Some \<lparr>cache_cookies = cookies_update (set_cookies r) (session_cookies w),
                    cache_dt = utc_login e\<rparr>"
    if "token_stale (db_cache w) (utc_session e)" "login_resp e = Some r"
    using check_session_stale [OF that(1)] login_caches [OF that(2)] by simp
  have d: "check_session w e
            = (Inr (), if session_cookies w = []
                       then w\<lparr>session_cookies := cookies_update (cache_cookies c) []\<rparr>
                       else w)"
    if "db_cache w = Some c" "\<not> hour_us < utc_session e - cache_dt c"
    using that by (simp add: check_session_def)
  have f: "logins (snd (check_loads (snd (check_loads w e)) e2)) = logins w
            \<and> db_cache (snd (check_loads (snd (check_loads w e)) e2)) = db_cache w"
    if "\<not> token_stale (db_cache w) (utc_session e)"
       "\<not> token_stale (db_cache w) (utc_session e2)"
  proof -
    let ?w1 = "snd (check_loads w e)"
    from check_loads_logins [of w e] that(1)
    have 1: "logins ?w1 = logins w" "db_cache ?w1 = db_cache w" by simp_all
    from check_loads_logins [of ?w1 e2] that(2) 1 show ?thesis by simp
  qed
  from a check_session_sent c d check_loads_logins f show ?thesis by blast
qed

lemma ready_reaches: "reaches_session w_ready e_noon"
  by code_simp

theorem login_iff_token_stale_witness:
  "logins (snd (check_loads w_ready e_noon)) = 1
   \<and> db_cache (snd (check_session w_ready e_noon))
       = Some \<lparr>cache_cookies = [(''JSESSIONID'', ''abc'')], cache_dt = 61200000002\<rparr>
   \<and> check_session
        (w_ready\<lparr>db_cache := Some \<lparr>cache_cookies = [(''JSESSIONID'', ''abc'')],
                                   cache_dt = 61200000002\<rparr>\<rparr>)
        (e_noon\<lparr>utc_session := 64800000002\<rparr>)
       = (Inr (), w_ready\<lparr>db_cache := Some \<lparr>cache_cookies = [(''JSESSIONID'', ''abc'')],
                                             cache_dt = 61200000002\<rparr>,
                          session_cookies := [(''JSESSIONID'', ''abc'')]\<rparr>)
   \<and> logins (snd (check_loads (snd (check_loads
        (w_ready\<lparr>db_cache := Some \<lparr>cache_cookies = [(''JSESSIONID'', ''abc'')],
                                   cache_dt = 61200000002\<rparr>\<rparr>)
        (e_noon\<lparr>utc_session := 64800000002\<rparr>))) (e_noon\<lparr>utc_session := 61300000000\<rparr>))) = 0"
proof -
  let ?c = "\<lparr>cache_cookies = [(''JSESSIONID'', ''abc'')], cache_dt = 61200000002\<rparr>"
  let ?w = "w_ready\<lparr>db_cache := Some ?c\<rparr>"
  have s0: "token_stale (db_cache w_ready) (utc_session e_noon)"
    by (simp add: token_stale_def w_ready_def)
  have lr: "login_resp e_noon = Some \<lparr>ok = True, set_cookies = [(''JSESSIONID'', ''abc'')]\<rparr>"
    by (simp add: e_noon_def)
  have ul: "utc_login e_noon = 61200000002" by (simp add: e_noon_def)
  have l0: "logins w_ready = 0" "logins ?w = 0" "session_cookies w_ready = []"
    by (simp_all add: logins_def w_ready_def)
  have cu: "cookies_update [(''JSESSIONID'', ''abc'')] [] = [(''JSESSIONID'', ''abc'')]"
    by (simp add: cookies_update_def)
  have f1: "\<not> token_stale (db_cache ?w) (utc_session (e_noon\<lparr>utc_session := 64800000002\<rparr>))"
    and f2: "\<not> token_stale (db_cache ?w) (utc_session (e_noon\<lparr>utc_session := 61300000000\<rparr>))"
    and f3: "\<not> hour_us < utc_session (e_noon\<lparr>utc_session := 64800000002\<rparr>) - cache_dt ?c"
    by (simp_all add: token_stale_def hour_us_def)
  from s0 lr l0 cu ul ready_reaches
    login_iff_token_stale [of w_ready e_noon
        "\<lparr>ok = True, set_cookies = [(''JSESSIONID'', ''abc'')]\<rparr>" ?c e_noon]
  have 1: "logins (snd (check_loads w_ready e_noon)) = 1"
    and 2: "db_cache (snd (check_session w_ready e_noon)) = Some ?c"
    by simp_all
  from f1 f2 f3 l0 cu
    login_iff_token_stale [of ?w "e_noon\<lparr>utc_session := 64800000002\<rparr>"
        "\<lparr>ok = True, set_cookies = []\<rparr>" ?c "e_noon\<lparr>utc_session := 61300000000\<rparr>"]
  have 3: "check_session ?w (e_noon\<lparr>utc_session := 64800000002\<rparr>)
       = (Inr (), ?w\<lparr>session_cookies := [(''JSESSIONID'', ''abc'')]\<rparr>)"
    and 4: "logins (snd (check_loads (snd (check_loads ?w
        (e_noon\<lparr>utc_session := 64800000002\<rparr>))) (e_noon\<lparr>utc_session := 61300000000\<rparr>))) = 0"
    by simp_all
  from 1 2 3 4 show ?thesis by simp
qed

section \<open>The cell layout a cycle relies on\<close>

lemma split_from_nonempty: "split_from sep cur s \<noteq> []"
  by (induction s arbitrary: cur) auto

lemma split_from_two:
  "sep \<noteq> [] \<Longrightarrow> 1 < length (split_from sep cur s) \<longleftrightarrow> str_in sep s"
proof (induction s arbitrary: cur)
  case Nil
  then show ?case by simp
next
  case (Cons c cs)
  show ?case
  proof (cases "prefix sep (c # cs)")
    case True
    have "split_from sep [] (drop (length sep) (c # cs)) \<noteq> []"
      by (rule split_from_nonempty)
    then have "0 < length (split_from sep [] (drop (length sep) (c # cs)))" by simp
    with True Cons.prems show ?thesis by simp
  next
    case False
    with Cons show ?thesis by simp
  qed
qed

lemma py_split_items:
  "isl (get_item (py_split '' P:'' s) 0) = False"
  "isl (get_item (py_split '' P:'' s) 1) = (\<not> str_in '' P:'' s)"
  "isl (get_item (py_split '' D:'' s) 0) = False"
  "isl (get_item (py_split '' D:'' s) 1) = (\<not> str_in '' D:'' s)"
  using split_from_nonempty [of "'' P:''" "[]" s] split_from_two [of "'' P:''" "[]" s]
    split_from_nonempty [of "'' D:''" "[]" s] split_from_two [of "'' D:''" "[]" s]
  by (auto simp: get_item_def py_split_def)

lemma isl_get_item: "isl (get_item xs i) = (\<not> i < length xs)"
  by (simp add: get_item_def)

lemma entry_fields_isl:
  assumes "5 < length (cells x)"
  shows "isl (entry_fields x d now) \<longleftrightarrow> \<not> offer_cells_ok (cells x)"
proof -
  have g: "get_item (cells x) 1 = Inr (cells x ! 1)" "get_item (cells x) 2 = Inr (cells x ! 2)"
    "get_item (cells x) 4 = Inr (cells x ! 4)"
    using assms by (simp_all add: get_item_def)
  show ?thesis
    using py_split_items [of "cells x ! 1"] py_split_items [of "cells x ! 2"]
      isl_get_item [of "cells x" 6] isl_get_item [of "cells x" 8]
    unfolding entry_fields_def offer_cells_ok_def g
    by (auto split: sum.splits)
qed

lemma parse_entry_isl: "isl (parse_entry row) \<longleftrightarrow> \<not> weight_cell_ok row"
  by (auto simp: parse_entry_def weight_cell_ok_def get_item_def parse_weight_def
      split: option.splits)

lemma parse_entries_isl_Cons:
  "isl (parse_entries (row # rows)) \<longleftrightarrow> isl (parse_entry row) \<or> isl (parse_entries rows)"
  by (auto split: sum.splits)

lemma parse_entries_isl:
  "isl (parse_entries rows) \<longleftrightarrow> (\<exists>row \<in> set rows. \<not> weight_cell_ok row)"
proof (induction rows)
  case Nil
  then show ?case by simp
next
  case (Cons row rows)
  then show ?case
    unfolding parse_entries_isl_Cons parse_entry_isl by simp
qed

lemma select_entry_raises:
  assumes "5 < length (cells x)"
  shows "fst (select_entry e r lg (w, sel) x) \<noteq> None
     \<longleftrightarrow> isl (py_int (cells x ! 0))
         \<or> (\<not> (\<exists>l \<in> set (db_loads w). Inr (dsm l) = py_int (cells x ! 0))
            \<and> (\<not> offer_cells_ok (cells x) \<or> lg = None))"
proof -
  from assms have "0 < length (cells x)" by (cases "cells x") simp_all
  then have dsm_eq: "entry_dsm x = py_int (cells x ! 0)"
    by (simp add: entry_dsm_def get_item_def)
  show ?thesis
  proof (cases "py_int (cells x ! 0)")
    case (Inl err)
    with dsm_eq show ?thesis by (simp add: select_entry_def)
  next
    case (Inr d)
    show ?thesis
    proof (cases "list_ex (\<lambda>l. dsm l = d) (db_loads w)")
      case True
      with Inr dsm_eq show ?thesis by (auto simp: select_entry_def list_ex_iff)
    next
      case False
      then have ns: "\<not> (\<exists>l \<in> set (db_loads w). Inr (dsm l) = py_int (cells x ! 0))"
        using Inr by (auto simp: list_ex_iff)
      show ?thesis
      proof (cases "entry_fields x d (utc_insert e (new_loads sel))")
        case bad: (Inl err)
        then have "\<not> offer_cells_ok (cells x)"
          using entry_fields_isl [OF assms, of d "utc_insert e (new_loads sel)"] by simp
        with bad Inr dsm_eq False ns show ?thesis by (simp add: select_entry_def)
      next
        case good: (Inr doc)
        then have "offer_cells_ok (cells x)"
          using entry_fields_isl [OF assms, of d "utc_insert e (new_loads sel)"] by simp
        with good Inr dsm_eq False ns show ?thesis
          by (auto simp: select_entry_def split: option.splits)
      qed
    qed
  qed
qed

text \<open>
  C10, as the code has it. The weight pass raises exactly when some row has fewer than
  six cells or a cell 5 without the weight pattern, and then the cycle ends with that
  exception and the store as it was. In the selection loop a row of at least six
  cells makes its pass raise exactly when cell 0 is not an integer, or when its
  \<^verbatim>\<open>dsm\<close> is not stored yet and the row has fewer than nine cells, or no \<^verbatim>\<open>" P:"\<close> in
  cell 1, or no \<^verbatim>\<open>" D:"\<close> in cell 2 (or the rules document is missing). A row whose
  \<^verbatim>\<open>dsm\<close> is already stored is passed over without these reads. The pass that raises
  selects and stores nothing; the exception is not caught and the row is not skipped.
\<close>

theorem row_layout_needed:
  "(isl (parse_entries rows) \<longleftrightarrow> (\<exists>row \<in> set rows. \<not> weight_cell_ok row))
   \<and> (parse_entries (offers_rows e) = Inl err \<longrightarrow> process_offers w e r = (Inl err, w))
   \<and> (5 < length (cells x)
        \<longrightarrow> (fst (select_entry e r lg (w, sel) x) \<noteq> None
             \<longleftrightarrow> isl (py_int (cells x ! 0))
                 \<or> (\<not> (\<exists>l \<in> set (db_loads w). Inr (dsm l) = py_int (cells x ! 0))
                    \<and> (\<not> offer_cells_ok (cells x) \<or> lg = None))))
   \<and> (fst (select_entry e r lg (w, sel) x) \<noteq> None
        \<longrightarrow> snd (select_entry e r lg (w, sel) x) = (w, sel))"
proof -
  have d: "snd (select_entry e r lg (w, sel) x) = (w, sel)"
    if "fst (select_entry e r lg (w, sel) x) \<noteq> None"
  proof -
    obtain res w' sel' where s: "select_entry e r lg (w, sel) x = (res, w', sel')"
      by (metis prod.collapse)
    from select_entry_cases [OF s] that s show ?thesis by auto
  qed
  from parse_entries_isl process_offers_parse_error select_entry_raises d
  show ?thesis by blast
qed

lemma short_row_facts:
  "\<not> weight_cell_ok [''7'', ''a'', ''b'', ''c'', ''d'', ''4200lbs'']"
  "parse_entries [[''7'', ''a'', ''b'', ''c'', ''d'', ''4200lbs'']] = Inl AttributeError"
  "5 < length (take 8 (offers_rows e_noon ! 0))"
  "py_int (take 8 (offers_rows e_noon ! 0) ! 0) = Inr 101"
  "\<not> offer_cells_ok (take 8 (offers_rows e_noon ! 0))"
  "db_loads w_ready = []"
  by code_simp+

theorem row_layout_needed_witness:
  "isl (parse_entries [[''7'', ''a'', ''b'', ''c'', ''d'', ''4200lbs'']])
   \<and> process_offers w_ready
        (e_noon\<lparr>offers_rows := [[''7'', ''a'', ''b'', ''c'', ''d'', ''4200lbs'']]\<rparr>) 2
       = (Inl AttributeError, w_ready)
   \<and> fst (select_entry e_noon 2 (db_logic w_ready)
        (w_ready, \<lparr>new_loads = 0, action_ids = [], text_blocks = []\<rparr>)
        \<lparr>cells = take 8 (offers_rows e_noon ! 0), weight_lbs = 500\<rparr>) \<noteq> None
   \<and> snd (select_entry e_noon 2 (db_logic w_ready)
        (w_ready, \<lparr>new_loads = 0, action_ids = [], text_blocks = []\<rparr>)
        \<lparr>cells = take 8 (offers_rows e_noon ! 0), weight_lbs = 500\<rparr>)
       = (w_ready, \<lparr>new_loads = 0, action_ids = [], text_blocks = []\<rparr>)"
proof -
  let ?rows = "[[''7'', ''a'', ''b'', ''c'', ''d'', ''4200lbs'']]"
  let ?x = "\<lparr>cells = take 8 (offers_rows e_noon ! 0), weight_lbs = 500\<rparr>"
  let ?s0 = "\<lparr>new_loads = 0, action_ids = [], text_blocks = []\<rparr>"
  note t = row_layout_needed [of ?rows "e_noon\<lparr>offers_rows := ?rows\<rparr>" AttributeError
      w_ready 2 ?x "db_logic w_ready" ?s0]
  note u = row_layout_needed [of ?rows e_noon AttributeError
      w_ready 2 ?x "db_logic w_ready" ?s0]
  from t short_row_facts(1) have 1: "isl (parse_entries ?rows)" by simp
  from t short_row_facts(2) have 2: "process_offers w_ready (e_noon\<lparr>offers_rows := ?rows\<rparr>) 2
       = (Inl AttributeError, w_ready)" by simp
  from u short_row_facts(3-6)
  have 3: "fst (select_entry e_noon 2 (db_logic w_ready) (w_ready, ?s0) ?x) \<noteq> None"
    by simp
  with u have 4: "snd (select_entry e_noon 2 (db_logic w_ready) (w_ready, ?s0) ?x)
       = (w_ready, ?s0)" by blast
  from 1 2 3 4 show ?thesis by blast
qed

text \<open>
  A row of six cells without delimiters whose \<^verbatim>\<open>dsm\<close> is already stored does not make
  the cycle raise; and a row of eight cells makes the cycle raise \<^verbatim>\<open>IndexError\<close> only
  after the lighter offer 102 has been selected and stored.
\<close>

theorem row_layout_counterexample:
  "\<not> offer_cells_ok [''101'', ''x'', ''y'', ''z'', ''c'', ''500 lbs'']
   \<and> fst (check_loads
        (snd (check_loads (w_ready\<lparr>db_threshold := Some \<lparr>threshold = 5\<rparr>\<rparr>) e_noon))
        (e_noon\<lparr>offers_rows := [[''101'', ''x'', ''y'', ''z'', ''c'', ''500 lbs'']]\<rparr>))
       = Inr Py_None
   \<and> \<not> offer_cells_ok (take 8 (offers_rows e_noon ! 0))
   \<and> fst (check_loads w_ready
        (e_noon\<lparr>offers_rows := [take 8 (offers_rows e_noon ! 0), offers_rows e_noon ! 1]\<rparr>))
       = Inl IndexError
   \<and> map dsm (db_loads (snd (check_loads w_ready
        (e_noon\<lparr>offers_rows := [take 8 (offers_rows e_noon ! 0), offers_rows e_noon ! 1]\<rparr>))))
       = [102]"
  by code_simp

end
